theory Spec2Isabelle
  imports Main
begin

section \<open>The dependency-package read service (main.py)\<close>

text \<open>
  The service has two endpoints, \<open>health\<close> and \<open>getCompPkgDeps\<close>. Both talk to the
  outside world only: the user-validation service (\<open>requests.get\<close>), the database
  (\<open>engine.connect\<close>, \<open>cursor.execute\<close>) and arbitrary license URLs (\<open>requests.head\<close>).
  The embedding makes that world a parameter. Every external call is answered by a function of
  the world that receives the trace of all earlier calls together with their answers, so an
  answer may change from one call to the next (a connection that fails twice and then works).
  Every call is appended to the trace with its answer; the endpoints return the trace next to
  the HTTP response, which is what lets one state which calls were made and which were not.
\<close>

subsection \<open>Values exchanged with the outside world\<close>

text \<open>
  Exceptions are values. The retry loop distinguishes SQLAlchemy's \<open>InterfaceError\<close> and
  \<open>OperationalError\<close> from everything else; the string is what \<open>str(err)\<close> gives.
\<close>

datatype exn =
    InterfaceError string
  | OperationalError string
  | OtherException string

fun exn_str :: "exn \<Rightarrow> string" where
  "exn_str (InterfaceError m) = m"
| "exn_str (OperationalError m) = m"
| "exn_str (OtherException m) = m"

text \<open>The test of \<open>except (InterfaceError, OperationalError)\<close>.\<close>

fun is_conn_error :: "exn \<Rightarrow> bool" where
  "is_conn_error (InterfaceError m) = True"
| "is_conn_error (OperationalError m) = True"
| "is_conn_error (OtherException m) = False"

text \<open>A bound parameter of an SQL statement: \<open>None\<close>, an integer or a string.\<close>

datatype param = PNone | PInt int | PStr string

text \<open>
  A row of the dependency query has eight columns, read by position in the source
  (\<open>row[0]\<close> to \<open>row[7]\<close>). The two columns the code tests for emptiness, \<open>url\<close> and
  \<open>purl\<close>, may be SQL NULL (Python \<open>None\<close>). The other columns, and those of a
  vulnerability record, are taken to hold strings.
\<close>

record dep_row =
  r_packagename :: string
  r_packageversion :: string
  r_name :: string
  r_url :: "string option"
  r_summary :: string
  r_fullcompname :: string
  r_purl :: "string option"
  r_pkgtype :: string

text \<open>A row of the vulnerability query: \<open>id, summary, risklevel\<close>.\<close>

record vuln_row =
  v_id :: string
  v_summary :: string
  v_risklevel :: string

text \<open>
  An entry of the response list. The license branch builds a dictionary without the key
  \<open>risklevel\<close>, the vulnerability branch one with it.
\<close>

record DepPkg =
  packagename :: string
  packageversion :: string
  name :: string
  url :: string
  summary :: string
  fullcompname :: string
  risklevel :: "string option"

type_synonym cookies = "(string \<times> string) list"

text \<open>One external call with its answer. \<open>Sleep\<close> carries milliseconds.\<close>

datatype event =
    RequestsGet string cookies "exn + int option"
  | EngineConnect "exn option"
  | CursorExecute string "param list" "exn + dep_row list"
  | RequestsHead string "string + int"
  | VCursorExecute string "param list" "exn + vuln_row list"
  | RowcountExecute string "exn + int"
  | Sleep nat

text \<open>
  The world. \<open>requests_get\<close> raises, returns \<open>None\<close> or returns a response with a status
  code. \<open>engine_connect\<close> stands for \<open>engine.connect()\<close> with the creation of the cursor.
  \<open>cursor_execute\<close> and \<open>v_cursor_execute\<close> stand for \<open>execute\<close> followed by
  \<open>fetchall\<close>, \<open>rowcount_execute\<close> for \<open>execute\<close> followed by reading
  \<open>cursor.rowcount\<close>. The database calls run on objects handed out by SQLAlchemy and may
  raise any exception. \<open>requests_head\<close> is a call of the HTTP client library: what it
  raises is never one of SQLAlchemy's two classes, so its failure carries just the message.
  \<open>validateuser_url\<close> is read from the environment at start-up.
  \<open>http_exception_str\<close> is \<open>str\<close> of an \<open>HTTPException\<close> with the given status
  code and detail, which the web framework defines.
\<close>

record world =
  validateuser_url :: string
  http_exception_str :: "int \<Rightarrow> string \<Rightarrow> string"
  requests_get :: "event list \<Rightarrow> string \<Rightarrow> cookies \<Rightarrow> exn + int option"
  engine_connect :: "event list \<Rightarrow> exn option"
  cursor_execute :: "event list \<Rightarrow> string \<Rightarrow> param list \<Rightarrow> exn + dep_row list"
  requests_head :: "event list \<Rightarrow> string \<Rightarrow> string + int"
  v_cursor_execute :: "event list \<Rightarrow> string \<Rightarrow> param list \<Rightarrow> exn + vuln_row list"
  rowcount_execute :: "event list \<Rightarrow> string \<Rightarrow> exn + int"

subsection \<open>String helpers of Python\<close>

text \<open>
  Characters are code points below 256. \<open>isspace\<close> lists the ones \<open>str.strip()\<close>
  removes there.
\<close>

definition isspace :: "char \<Rightarrow> bool" where
  "isspace c = (of_char c \<in> {9, 10, 11, 12, 13, 28, 29, 30, 31, 32, 133, 160 :: nat})"

definition strip :: "string \<Rightarrow> string" where
  "strip s = rev (dropWhile isspace (rev (dropWhile isspace s)))"

text \<open>\<open>isBlank\<close>: \<open>not (myString and myString.strip())\<close>; \<open>None\<close> and the empty string are falsy.\<close>

definition isBlank :: "string option \<Rightarrow> bool" where
  "isBlank myString =
     (\<not> (case myString of None \<Rightarrow> False | Some s \<Rightarrow> s \<noteq> [] \<and> strip s \<noteq> []))"

text \<open>\<open>s.split(c)\<close> for a separator of one character; the result is never empty.\<close>

fun split_str :: "char \<Rightarrow> string \<Rightarrow> string list" where
  "split_str c [] = [[]]"
| "split_str c (x # xs) =
     (if x = c then [] # split_str c xs
      else (case split_str c xs of
              [] \<Rightarrow> [[x]]
            | y # ys \<Rightarrow> (x # y) # ys))"

text \<open>\<open>s.split(c)[0]\<close>.\<close>

definition split_first :: "char \<Rightarrow> string \<Rightarrow> string" where
  "split_first c s = (case split_str c s of [] \<Rightarrow> [] | y # ys \<Rightarrow> y)"

text \<open>\<open>str(n)\<close> for an integer: decimal digits, with a minus sign when negative.\<close>

definition digit_char :: "nat \<Rightarrow> char" where
  "digit_char d = char_of (48 + d)"

function str_nat :: "nat \<Rightarrow> string" where
  "str_nat n = (if n < 10 then [digit_char n] else str_nat (n div 10) @ [digit_char (n mod 10)])"
  by pat_completeness auto
termination
  by (relation "measure id") auto

declare str_nat.simps [simp del]

definition str_int :: "int \<Rightarrow> string" where
  "str_int i = (if i < 0 then CHR ''-'' # str_nat (nat (- i)) else str_nat (nat i))"

subsection \<open>Globals\<close>

definition service_name :: string where
  "service_name = ''ortelius-ms-dep-pkg-r''"

definition db_conn_retry :: nat where
  "db_conn_retry = 3"

subsection \<open>The health endpoint\<close>

record StatusMsg =
  status :: string
  msg_service_name :: "string option"

definition status_up :: StatusMsg where
  "status_up = \<lparr>status = ''UP'', msg_service_name = Some service_name\<rparr>"

definition status_down :: StatusMsg where
  "status_down = \<lparr>status = ''DOWN'', msg_service_name = None\<rparr>"

text \<open>
  \<open>health\<close> returns the trace, the status code and the body. The status code stays 200
  unless the code sets 503. Any exception of the connection or of the probe is caught.
\<close>

definition health :: "world \<Rightarrow> event list \<times> int \<times> StatusMsg" where
  "health w =
     (case engine_connect w [] of
        Some err \<Rightarrow> ([EngineConnect (Some err)], 503, status_down)
      | None \<Rightarrow>
          (let res = rowcount_execute w [EngineConnect None] ''SELECT 1'';
               tr = [EngineConnect None, RowcountExecute ''SELECT 1'' res]
           in case res of
                Inl err \<Rightarrow> (tr, 503, status_down)
              | Inr rowcount \<Rightarrow>
                  if rowcount > 0 then (tr, 200, status_up)
                  else (tr, 503, status_down)))"

subsection \<open>The dependency endpoint\<close>

datatype response =
    Data "DepPkg list"
  | HTTPException int string
  | RequestValidationError

text \<open>The status code the framework sends for each outcome.\<close>

fun status_code :: "response \<Rightarrow> int" where
  "status_code (Data d) = 200"
| "status_code (HTTPException c detail) = c"
| "status_code RequestValidationError = 422"

text \<open>
  The state of the handler after authorization: the trace, the request-local dictionary
  \<open>valid_url\<close> and the list \<open>response_data\<close>.
\<close>

record st =
  trace :: "event list"
  valid_url :: "string \<rightharpoonup> string"
  response_data :: "DepPkg list"

definition spdx_url :: string where
  "spdx_url = ''https://spdx.org/licenses/''"

definition osv_url :: string where
  "osv_url = ''https://osv.dev/vulnerability/''"

definition comp_sql :: string where
  "comp_sql =
     ''SELECT packagename, packageversion, name, url, summary, '' @ [CHR 0x27, CHR 0x27] @
     '', purl, pkgtype FROM dm_componentdeps where compid = %s and deptype = %s''"

definition app_sql :: string where
  "app_sql = ''select distinct b.packagename, b.packageversion, b.name, b.url, b.summary, fulldomain(c.domainid, c.name), b.purl, b.pkgtype from dm.dm_applicationcomponent a, dm.dm_componentdeps b, dm.dm_component c where appid = %s and a.compid = b.compid and c.id = b.compid and b.deptype = %s''"

definition vulns_by_pkg_sql :: string where
  "vulns_by_pkg_sql = ''select id, summary, risklevel from dm.dm_vulns where packagename = %s and packageversion = %s''"

definition vulns_by_purl_sql :: string where
  "vulns_by_purl_sql = ''select id, summary,risklevel from dm.dm_vulns where purl = %s''"

text \<open>Lines 174 to 182: the statement, the id and the parameter tuple.\<close>

definition query_sql :: "int option \<Rightarrow> int option \<Rightarrow> string" where
  "query_sql compid appid =
     (if compid \<noteq> None then comp_sql
      else if appid \<noteq> None then app_sql
      else '''')"

definition query_id :: "int option \<Rightarrow> int option \<Rightarrow> int option" where
  "query_id compid appid =
     (if compid \<noteq> None then compid
      else if appid \<noteq> None then appid
      else compid)"

definition id_param :: "int option \<Rightarrow> param" where
  "id_param i = (case i of None \<Rightarrow> PNone | Some n \<Rightarrow> PInt n)"

definition query_params :: "int option \<Rightarrow> int option \<Rightarrow> param list" where
  "query_params compid appid = [id_param (query_id compid appid), PStr ''license'']"

text \<open>Lines 198 and 199: \<open>if (not url): url = 'https://spdx.org/licenses/'\<close>.\<close>

definition default_url :: "string option \<Rightarrow> string" where
  "default_url u = (case u of None \<Rightarrow> spdx_url | Some s \<Rightarrow> if s = [] then spdx_url else s)"

definition license_entry :: "dep_row \<Rightarrow> string \<Rightarrow> DepPkg" where
  "license_entry row u =
     \<lparr>packagename = r_packagename row, packageversion = r_packageversion row,
      name = r_name row, url = u, summary = r_summary row,
      fullcompname = r_fullcompname row, risklevel = None\<rparr>"

definition vuln_entry :: "dep_row \<Rightarrow> vuln_row \<Rightarrow> DepPkg" where
  "vuln_entry row v_row =
     \<lparr>packagename = r_packagename row, packageversion = r_packageversion row,
      name = v_id v_row, url = osv_url @ v_id v_row, summary = v_summary v_row,
      fullcompname = r_fullcompname row, risklevel = Some (v_risklevel v_row)\<rparr>"

text \<open>Lines 222 to 231: the statement and the parameters of the vulnerability lookup.\<close>

definition vuln_query :: "dep_row \<Rightarrow> string \<times> param list" where
  "vuln_query row =
     (if isBlank (r_purl row)
      then (vulns_by_pkg_sql, [PStr (r_packagename row), PStr (r_packageversion row)])
      else (case r_purl row of
              None \<Rightarrow> (vulns_by_pkg_sql, [PStr (r_packagename row), PStr (r_packageversion row)])
            | Some purl \<Rightarrow>
                (vulns_by_purl_sql,
                 [PStr (if CHR ''?'' \<in> set purl then split_first (CHR ''?'') purl else purl)])))"

text \<open>
  The body of \<open>for row in rows\<close> (lines 188 to 254). It returns the new state and the
  exception that left the body, if any. \<open>name not in valid_url\<close> is the test that the
  dictionary has no value for the name. Reading \<open>valid_url[name]\<close> raises \<open>KeyError\<close>
  on a missing key.
\<close>

definition row_body :: "world \<Rightarrow> string \<Rightarrow> dep_row \<Rightarrow> st \<Rightarrow> st \<times> exn option" where
  "row_body w deptype row s =
     (if deptype = ''license'' then
        (let u = default_url (r_url row);
             checked =
               (if valid_url s (r_name row) = None then
                  (let r = requests_head w (trace s) u;
                       s1 = s\<lparr>trace := trace s @ [RequestsHead u r]\<rparr>
                   in case r of
                        Inl m \<Rightarrow> (s1, Some (OtherException m))
                      | Inr code \<Rightarrow>
                          if code = 200
                          then (s1\<lparr>valid_url := (valid_url s1)(r_name row \<mapsto> u)\<rparr>, None)
                          else (s1\<lparr>valid_url := (valid_url s1)(r_name row \<mapsto> spdx_url)\<rparr>, None))
                else (s, None))
         in case checked of
              (s2, Some ex) \<Rightarrow> (s2, Some ex)
            | (s2, None) \<Rightarrow>
                (case valid_url s2 (r_name row) of
                   None \<Rightarrow> (s2, Some (OtherException ''KeyError''))
                 | Some u' \<Rightarrow>
                     (s2\<lparr>response_data := response_data s2 @ [license_entry row u']\<rparr>, None)))
      else
        (let v_sql = fst (vuln_query row);
             v_params = snd (vuln_query row);
             res = v_cursor_execute w (trace s) v_sql v_params;
             s1 = s\<lparr>trace := trace s @ [VCursorExecute v_sql v_params res]\<rparr>
         in case res of
              Inl ex \<Rightarrow> (s1, Some ex)
            | Inr v_rows \<Rightarrow>
                (s1\<lparr>response_data := response_data s1 @ map (vuln_entry row) v_rows\<rparr>, None)))"

text \<open>\<open>for row in rows\<close>: an exception leaves the loop.\<close>

fun for_rows :: "world \<Rightarrow> string \<Rightarrow> dep_row list \<Rightarrow> st \<Rightarrow> st \<times> exn option" where
  "for_rows w deptype [] s = (s, None)"
| "for_rows w deptype (row # rows) s =
     (case row_body w deptype row s of
        (s', Some ex) \<Rightarrow> (s', Some ex)
      | (s', None) \<Rightarrow> for_rows w deptype rows s')"

text \<open>
  One pass through the \<open>with engine.connect()\<close> block (lines 170 to 257). \<open>valid_url\<close> is
  created anew after the rows are fetched; \<open>response_data\<close> is the list created before
  the retry loop and is not reset here.
\<close>

definition db_attempt ::
  "world \<Rightarrow> int option \<Rightarrow> int option \<Rightarrow> string \<Rightarrow> st \<Rightarrow> st \<times> exn option" where
  "db_attempt w compid appid deptype s =
     (case engine_connect w (trace s) of
        Some ex \<Rightarrow> (s\<lparr>trace := trace s @ [EngineConnect (Some ex)]\<rparr>, Some ex)
      | None \<Rightarrow>
          (let s1 = s\<lparr>trace := trace s @ [EngineConnect None]\<rparr>;
               sql = query_sql compid appid;
               params = query_params compid appid;
               res = cursor_execute w (trace s1) sql params;
               s2 = s1\<lparr>trace := trace s1 @ [CursorExecute sql params res]\<rparr>
           in case res of
                Inl ex \<Rightarrow> (s2, Some ex)
              | Inr rows \<Rightarrow> for_rows w deptype rows (s2\<lparr>valid_url := Map.empty\<rparr>)))"

text \<open>
  The \<open>while True\<close> loop (lines 166 to 273) with its counter \<open>attempt\<close>. The sleep of
  0.2 seconds is the event \<open>Sleep 200\<close>.
\<close>

function retry_loop ::
  "world \<Rightarrow> int option \<Rightarrow> int option \<Rightarrow> string \<Rightarrow> nat \<Rightarrow> st \<Rightarrow> st \<times> exn option" where
  "retry_loop w compid appid deptype attempt s =
     (case db_attempt w compid appid deptype s of
        (s', None) \<Rightarrow> (s', None)
      | (s', Some ex) \<Rightarrow>
          if is_conn_error ex then
            (if attempt < db_conn_retry
             then retry_loop w compid appid deptype (attempt + 1)
                    (s'\<lparr>trace := trace s' @ [Sleep 200]\<rparr>)
             else (s', Some ex))
          else (s', Some ex))"
  by pat_completeness auto
termination
  by (relation "measure (\<lambda>(w, compid, appid, deptype, attempt, s). db_conn_retry - attempt)") auto

declare retry_loop.simps [simp del]

text \<open>
  The handler (lines 151 to 279). An \<open>HTTPException\<close> raised inside the first \<open>try\<close> is
  itself caught by \<open>except Exception\<close> and raised again with its \<open>str\<close> in the detail.
\<close>

definition getCompPkgDeps ::
  "world \<Rightarrow> cookies \<Rightarrow> int option \<Rightarrow> int option \<Rightarrow> string \<Rightarrow> event list \<times> response" where
  "getCompPkgDeps w cks compid appid deptype =
     (let target = validateuser_url w @ ''/msapi/validateuser'';
          result = requests_get w [] target cks;
          tr = [RequestsGet target cks result]
      in case result of
           Inl err \<Rightarrow> (tr, HTTPException 401 (''Authorization Failed:'' @ exn_str err))
         | Inr None \<Rightarrow>
             (tr, HTTPException 401
                    (''Authorization Failed:'' @ http_exception_str w 401 ''Authorization Failed''))
         | Inr (Some code) \<Rightarrow>
             if code \<noteq> 200 then
               (tr, HTTPException 401
                      (''Authorization Failed:'' @
                       http_exception_str w 401 (''Authorization Failed status_code='' @ str_int code)))
             else
               (case retry_loop w compid appid deptype 1
                       \<lparr>trace = tr, valid_url = Map.empty, response_data = []\<rparr> of
                  (s, None) \<Rightarrow> (trace s, Data (response_data s))
                | (s, Some err) \<Rightarrow> (trace s, HTTPException 500 (exn_str err))))"

text \<open>
  The declaration of the query parameters (line 151). \<open>deptype\<close> is required and
  constrained by \<open>regex="(?:license|cve)"\<close>: a group of two literal alternatives. The
  framework checks the constraint with \<open>re.match\<close>, which asks for a match at the start of
  the value and puts no condition on what follows the match. A value that fails is answered
  with 422 before the handler runs.
\<close>

definition deptype_regex :: "string list" where
  "deptype_regex = [''license'', ''cve'']"

definition re_match :: "string list \<Rightarrow> string \<Rightarrow> bool" where
  "re_match alternatives s = list_ex (\<lambda>a. take (length a) s = a) alternatives"

record request =
  req_cookies :: cookies
  req_compid :: "int option"
  req_appid :: "int option"
  req_deptype :: "string option"

definition deppkg_endpoint :: "world \<Rightarrow> request \<Rightarrow> event list \<times> response" where
  "deppkg_endpoint w req =
     (case req_deptype req of
        None \<Rightarrow> ([], RequestValidationError)
      | Some deptype \<Rightarrow>
          if re_match deptype_regex deptype
          then getCompPkgDeps w (req_cookies req) (req_compid req) (req_appid req) deptype
          else ([], RequestValidationError))"

subsection \<open>Reading a trace\<close>

text \<open>The URLs of the \<open>HEAD\<close> calls of a trace, in order.\<close>

fun head_urls :: "event list \<Rightarrow> string list" where
  "head_urls [] = []"
| "head_urls (RequestsHead u r # tr) = u # head_urls tr"
| "head_urls (e # tr) = head_urls tr"

text \<open>The dependency rows that the queries of a trace returned, in order.\<close>

fun fetched_rows :: "event list \<Rightarrow> dep_row list" where
  "fetched_rows [] = []"
| "fetched_rows (CursorExecute sql ps (Inr rows) # tr) = rows @ fetched_rows tr"
| "fetched_rows (e # tr) = fetched_rows tr"

fun is_lookup :: "event \<Rightarrow> bool" where
  "is_lookup (VCursorExecute sql ps res) = True"
| "is_lookup e = False"

text \<open>The events a pass over the rows may add: \<open>HEAD\<close> calls and vulnerability lookups.\<close>

fun is_row_event :: "event \<Rightarrow> bool" where
  "is_row_event (RequestsHead u r) = True"
| "is_row_event (VCursorExecute sql ps res) = True"
| "is_row_event e = False"

subsection \<open>The vulnerability lookup in the words of the specification\<close>

text \<open>
  A blank purl is one that is empty or consists of white space only; a missing purl counts
  as blank. The query-string suffix of a purl starts at its first question mark.
\<close>

definition spec_blank :: "string option \<Rightarrow> bool" where
  "spec_blank p = (case p of None \<Rightarrow> True | Some s \<Rightarrow> list_all isspace s)"

definition spec_strip_suffix :: "string \<Rightarrow> string" where
  "spec_strip_suffix s = takeWhile (\<lambda>c. c \<noteq> CHR ''?'') s"

definition spec_vuln_lookup :: "dep_row \<Rightarrow> string \<times> param list" where
  "spec_vuln_lookup row =
     (case r_purl row of
        None \<Rightarrow> (vulns_by_pkg_sql, [PStr (r_packagename row), PStr (r_packageversion row)])
      | Some p \<Rightarrow>
          if list_all isspace p
          then (vulns_by_pkg_sql, [PStr (r_packagename row), PStr (r_packageversion row)])
          else (vulns_by_purl_sql, [PStr (spec_strip_suffix p)]))"

subsection \<open>Concrete worlds\<close>

definition flask_row :: dep_row where
  "flask_row =
     \<lparr>r_packagename = ''flask'', r_packageversion = ''1.2.2'', r_name = ''BSD-3-Clause'',
      r_url = Some [], r_summary = [], r_fullcompname = [],
      r_purl = Some ''pkg:pypi/flask@1.2.2?os=linux'', r_pkgtype = ''pypi''\<rparr>"

definition jinja_row :: dep_row where
  "jinja_row =
     \<lparr>r_packagename = ''jinja2'', r_packageversion = ''2.10'', r_name = ''BSD-3-Clause'',
      r_url = Some ''https://opensource.org/licenses/BSD-3-Clause'', r_summary = [],
      r_fullcompname = [], r_purl = Some '' '', r_pkgtype = ''pypi''\<rparr>"

definition click_row :: dep_row where
  "click_row =
     \<lparr>r_packagename = ''click'', r_packageversion = ''7.0'', r_name = ''BSD-3-Clause'',
      r_url = Some ''https://spdx.org/licenses/BSD-3-Clause.html'', r_summary = [],
      r_fullcompname = [], r_purl = None, r_pkgtype = ''pypi''\<rparr>"

definition osv_row :: vuln_row where
  "osv_row = \<lparr>v_id = ''GHSA-xxxx'', v_summary = ''denial of service'', v_risklevel = ''High''\<rparr>"

text \<open>
  A world in which everything works: the user is valid, the database answers every
  dependency query with one row and every vulnerability lookup with one record, and every
  \<open>HEAD\<close> returns 200.
\<close>

definition demo_world :: world where
  "demo_world =
     \<lparr>validateuser_url = ''http://localhost:80'',
      http_exception_str = (\<lambda>c d. str_int c @ '': '' @ d),
      requests_get = (\<lambda>h u c. Inr (Some 200)),
      engine_connect = (\<lambda>h. None),
      cursor_execute = (\<lambda>h sql ps. Inr [flask_row]),
      requests_head = (\<lambda>h u. Inr 200),
      v_cursor_execute = (\<lambda>h sql ps. Inr [osv_row]),
      rowcount_execute = (\<lambda>h sql. Inr 1)\<rparr>"

text \<open>The validation service answers 403.\<close>

definition forbidden_world :: world where
  "forbidden_world = demo_world\<lparr>requests_get := (\<lambda>h u c. Inr (Some 403))\<rparr>"

text \<open>
  The connection fails with an \<open>OperationalError\<close> on the first two attempts (the trace
  then holds fewer than five events) and works on the third.
\<close>

definition flaky_world :: world where
  "flaky_world =
     demo_world\<lparr>engine_connect :=
       (\<lambda>h. if length h < 5 then Some (OperationalError ''connection refused'') else None)\<rparr>"

text \<open>Two rows with the same license name and different URLs.\<close>

definition two_url_world :: world where
  "two_url_world = demo_world\<lparr>cursor_execute := (\<lambda>h sql ps. Inr [jinja_row, click_row])\<rparr>"

text \<open>Three rows, one with a purl, one with a blank purl, one without a purl.\<close>

definition three_row_world :: world where
  "three_row_world =
     demo_world\<lparr>cursor_execute := (\<lambda>h sql ps. Inr [flask_row, jinja_row, click_row])\<rparr>"

text \<open>The database refuses an empty statement, as the driver does.\<close>

definition strict_world :: world where
  "strict_world =
     demo_world\<lparr>cursor_execute :=
       (\<lambda>h sql ps. if sql = [] then Inl (OtherException ''can't execute an empty query'')
                   else Inr [flask_row])\<rparr>"

text \<open>The probe of the health endpoint reports no row.\<close>

definition no_row_world :: world where
  "no_row_world = demo_world\<lparr>rowcount_execute := (\<lambda>h sql. Inr 0)\<rparr>"

text \<open>An event is in order for a request when, if it is a dependency query, it runs the
  statement and the parameters that \<open>compid\<close> and \<open>appid\<close> select.\<close>

definition dep_query_event :: "int option \<Rightarrow> int option \<Rightarrow> event \<Rightarrow> bool" where
  "dep_query_event compid appid e =
     (case e of
        CursorExecute sql ps res \<Rightarrow> sql = query_sql compid appid \<and> ps = query_params compid appid
      | _ \<Rightarrow> True)"

text \<open>The connection fails with an \<open>InterfaceError\<close> on every attempt.\<close>

definition down_world :: world where
  "down_world = demo_world\<lparr>engine_connect := (\<lambda>h. Some (InterfaceError ''connection already closed''))\<rparr>"

subsection \<open>The memoised URL of a license name\<close>

text \<open>
  A URL is in order for a license name, given a trace and a list of rows, when it is not empty
  and is either the SPDX landing page or the defaulted URL of the first row of the list with
  that name, on which the trace holds a \<open>HEAD\<close> call answered with 200.
\<close>

definition url_ok :: "event list \<Rightarrow> dep_row list \<Rightarrow> string \<Rightarrow> string \<Rightarrow> bool" where
  "url_ok tr rows n u =
     (u \<noteq> [] \<and>
      (u = spdx_url \<or>
       (case find (\<lambda>r. r_name r = n) rows of
          None \<Rightarrow> False
        | Some f \<Rightarrow> u = default_url (r_url f) \<and> RequestsHead u (Inr 200) \<in> set tr)))"

text \<open>
  The invariant of the loop over the rows in the license branch, after the rows \<open>pre\<close>:
  \<open>valid_url\<close> has a value exactly for the names of \<open>pre\<close>, and each value is in
  order for its name.
\<close>

definition memo_inv :: "st \<Rightarrow> dep_row list \<Rightarrow> bool" where
  "memo_inv s pre =
     ((\<forall>n. valid_url s n = None \<longleftrightarrow> n \<notin> r_name ` set pre) \<and>
      (\<forall>n u. valid_url s n = Some u \<longrightarrow> url_ok (trace s) pre n u))"

text \<open>The lookup of one row as an event, with the records it returned.\<close>

definition lookup_event :: "dep_row \<Rightarrow> vuln_row list \<Rightarrow> event" where
  "lookup_event row v_rows =
     VCursorExecute (fst (spec_vuln_lookup row)) (snd (spec_vuln_lookup row)) (Inr v_rows)"

text \<open>The trace up to and including its first dependency query.\<close>

fun is_fetch :: "event \<Rightarrow> bool" where
  "is_fetch (CursorExecute sql ps res) = True"
| "is_fetch e = False"

fun upto_fetch :: "event list \<Rightarrow> event list" where
  "upto_fetch [] = []"
| "upto_fetch (e # tr) = (if is_fetch e then [e] else e # upto_fetch tr)"

text \<open>The dependency query fails with an error that is neither of the two retried classes.\<close>

definition bad_sql_world :: world where
  "bad_sql_world =
     demo_world\<lparr>cursor_execute := (\<lambda>h sql ps. Inl (OtherException ''relation does not exist''))\<rparr>"


text \<open>
  A lookup is keyed by a list of rows when its statement and parameters are those the
  specification gives for one of the rows. A trace has keyed lookups when each of its
  vulnerability lookups is keyed by the rows its dependency queries fetched.
\<close>

definition keyed :: "dep_row list \<Rightarrow> event \<Rightarrow> bool" where
  "keyed rows e =
     (case e of
        VCursorExecute sql ps res \<Rightarrow> list_ex (\<lambda>row. (sql, ps) = spec_vuln_lookup row) rows
      | _ \<Rightarrow> True)"

definition keyed_lookups :: "event list \<Rightarrow> bool" where
  "keyed_lookups tr = list_all (keyed (fetched_rows tr)) tr"

definition lookup_of :: "dep_row list \<Rightarrow> event \<Rightarrow> bool" where
  "lookup_of rows e =
     (case e of
        VCursorExecute sql ps res \<Rightarrow> list_ex (\<lambda>row. (sql, ps) = spec_vuln_lookup row) rows
      | RequestsHead u r \<Rightarrow> True
      | _ \<Rightarrow> False)"

section \<open>Auxiliary facts\<close>

subsection \<open>Strings\<close>

lemma str_int_403: "str_int 403 = ''403''"
  by code_simp

lemma str_int_401: "str_int 401 = ''401''"
  by code_simp

lemma strip_Nil_iff: "strip s = [] \<longleftrightarrow> list_all isspace s"
proof
  assume "strip s = []"
  then have "dropWhile isspace (rev (dropWhile isspace s)) = []"
    by (simp add: strip_def)
  then have all: "\<forall>x\<in>set (dropWhile isspace s). isspace x"
    by simp
  have "dropWhile isspace s = []"
  proof (rule ccontr)
    assume ne: "dropWhile isspace s \<noteq> []"
    then have "\<not> isspace (hd (dropWhile isspace s))"
      by (rule hd_dropWhile)
    moreover from ne have "hd (dropWhile isspace s) \<in> set (dropWhile isspace s)"
      by simp
    ultimately show False using all by blast
  qed
  then show "list_all isspace s"
    by (simp add: list_all_iff)
next
  assume "list_all isspace s"
  then have "dropWhile isspace s = []"
    by (simp add: list_all_iff)
  then show "strip s = []"
    by (auto simp: strip_def dest: set_dropWhileD)
qed

lemma isBlank_spec: "isBlank p = spec_blank p"
  by (cases p) (auto simp: isBlank_def spec_blank_def strip_Nil_iff)

lemma split_str_not_Nil: "split_str c s \<noteq> []"
  by (induction s) (auto split: list.splits)

lemma split_first_takeWhile: "split_first c s = takeWhile (\<lambda>x. x \<noteq> c) s"
proof (induction s)
  case Nil
  show ?case by (simp add: split_first_def)
next
  case (Cons x xs)
  then show ?case
    using split_str_not_Nil [of c xs]
    by (auto simp: split_first_def split: list.splits)
qed

lemma takeWhile_no_mark: "c \<notin> set s \<Longrightarrow> takeWhile (\<lambda>x. x \<noteq> c) s = s"
  by (induction s) auto

lemma vuln_query_spec: "vuln_query row = spec_vuln_lookup row"
  by (cases "r_purl row")
    (auto simp: vuln_query_def spec_vuln_lookup_def isBlank_spec spec_blank_def
      spec_strip_suffix_def split_first_takeWhile takeWhile_no_mark)

lemma head_urls_append: "head_urls (xs @ ys) = head_urls xs @ head_urls ys"
  by (induction xs rule: head_urls.induct) auto

lemma fetched_rows_append: "fetched_rows (xs @ ys) = fetched_rows xs @ fetched_rows ys"
  by (induction xs rule: fetched_rows.induct) auto

lemma row_body_license_known:
  "valid_url s (r_name row) = Some u \<Longrightarrow>
   row_body w ''license'' row s =
     (s\<lparr>response_data := response_data s @ [license_entry row u]\<rparr>, None)"
  by (auto simp: row_body_def Let_def)

lemma row_body_license_raise:
  "valid_url s (r_name row) = None \<Longrightarrow>
   requests_head w (trace s) (default_url (r_url row)) = Inl m \<Longrightarrow>
   row_body w ''license'' row s =
     (s\<lparr>trace := trace s @ [RequestsHead (default_url (r_url row)) (Inl m)]\<rparr>,
      Some (OtherException m))"
  by (auto simp: row_body_def Let_def)

lemma row_body_license_head:
  "valid_url s (r_name row) = None \<Longrightarrow>
   requests_head w (trace s) (default_url (r_url row)) = Inr code \<Longrightarrow>
   u = (if code = 200 then default_url (r_url row) else spdx_url) \<Longrightarrow>
   row_body w ''license'' row s =
     (s\<lparr>trace := trace s @ [RequestsHead (default_url (r_url row)) (Inr code)],
        valid_url := (valid_url s)(r_name row \<mapsto> u),
        response_data := response_data s @ [license_entry row u]\<rparr>, None)"
  by (auto simp: row_body_def Let_def)

lemma row_body_cve_raise:
  "deptype \<noteq> ''license'' \<Longrightarrow>
   v_cursor_execute w (trace s) (fst (vuln_query row)) (snd (vuln_query row)) = Inl ex \<Longrightarrow>
   row_body w deptype row s =
     (s\<lparr>trace := trace s @
          [VCursorExecute (fst (vuln_query row)) (snd (vuln_query row)) (Inl ex)]\<rparr>, Some ex)"
  by (simp add: row_body_def Let_def)

lemma row_body_cve_rows:
  "deptype \<noteq> ''license'' \<Longrightarrow>
   v_cursor_execute w (trace s) (fst (vuln_query row)) (snd (vuln_query row)) = Inr v_rows \<Longrightarrow>
   row_body w deptype row s =
     (s\<lparr>trace := trace s @
          [VCursorExecute (fst (vuln_query row)) (snd (vuln_query row)) (Inr v_rows)],
        response_data := response_data s @ map (vuln_entry row) v_rows\<rparr>, None)"
  by (simp add: row_body_def Let_def)

subsection \<open>The retry loop\<close>

text \<open>
  An invariant that survives every attempt that is retried holds at the start of every attempt;
  what every attempt started under the invariant establishes holds of the result of the loop.
\<close>

lemma retry_loop_rule:
  assumes inv: "I s"
    and step: "\<And>s s' ex. I s \<Longrightarrow> db_attempt w compid appid deptype s = (s', Some ex) \<Longrightarrow>
                 is_conn_error ex \<Longrightarrow> I (s'\<lparr>trace := trace s' @ [Sleep 200]\<rparr>)"
    and fin: "\<And>s s' r. I s \<Longrightarrow> db_attempt w compid appid deptype s = (s', r) \<Longrightarrow> Q s' r"
  shows "Q (fst (retry_loop w compid appid deptype n s)) (snd (retry_loop w compid appid deptype n s))"
  using assms
proof (induction w compid appid deptype n s rule: retry_loop.induct)
  case (1 w compid appid deptype attempt s)
  obtain s' r where att: "db_attempt w compid appid deptype s = (s', r)"
    by (cases "db_attempt w compid appid deptype s")
  show ?case
  proof (cases "\<exists>ex. r = Some ex \<and> is_conn_error ex \<and> attempt < db_conn_retry")
    case True
    then obtain ex where ex: "r = Some ex" "is_conn_error ex" "attempt < db_conn_retry"
      by blast
    have next_inv: "I (s'\<lparr>trace := trace s' @ [Sleep 200]\<rparr>)"
      using "1.prems"(1,2) att ex by blast
    have unfold: "retry_loop w compid appid deptype attempt s =
        retry_loop w compid appid deptype (attempt + 1) (s'\<lparr>trace := trace s' @ [Sleep 200]\<rparr>)"
      using att ex by (simp add: retry_loop.simps [of w compid appid deptype attempt s])
    show ?thesis
      unfolding unfold
      by (rule "1.IH" [OF att [symmetric] ex(1) ex(2) ex(3) next_inv "1.prems"(2) "1.prems"(3)])
  next
    case False
    then have "retry_loop w compid appid deptype attempt s = (s', r)"
      using att by (cases r) (auto simp: retry_loop.simps [of w compid appid deptype attempt s])
    then show ?thesis
      using "1.prems" att by simp
  qed
qed


lemma db_attempt_compid: "db_attempt w (Some c) appid d s = db_attempt w (Some c) None d s"
proof -
  have a: "query_sql (Some c) appid = query_sql (Some c) None"
    by (simp add: query_sql_def)
  have b: "query_params (Some c) appid = query_params (Some c) None"
    by (simp add: query_params_def query_id_def)
  show ?thesis unfolding db_attempt_def a b ..
qed

lemma retry_loop_compid:
  "retry_loop w (Some c) appid d n s = retry_loop w (Some c) None d n s"
proof (induction w "Some c" appid d n s rule: retry_loop.induct)
  case (1 w appid d n s)
  show ?case
  proof (cases "db_attempt w (Some c) None d s")
    case (Pair s' r)
    then have att: "db_attempt w (Some c) appid d s = (s', r)"
      using db_attempt_compid [of w c appid d s] by simp
    show ?thesis
    proof (cases r)
      case None
      with Pair att show ?thesis
        by (simp add: retry_loop.simps [of w "Some c" appid d n s]
            retry_loop.simps [of w "Some c" None d n s])
    next
      case (Some ex)
      show ?thesis
      proof (cases "is_conn_error ex \<and> n < db_conn_retry")
        case True
        with "1" [of s' r ex] att Some
        have "retry_loop w (Some c) appid d (n + 1) (s'\<lparr>trace := trace s' @ [Sleep 200]\<rparr>) =
              retry_loop w (Some c) None d (n + 1) (s'\<lparr>trace := trace s' @ [Sleep 200]\<rparr>)"
          by simp
        with True Pair att Some show ?thesis
          by (simp add: retry_loop.simps [of w "Some c" appid d n s]
              retry_loop.simps [of w "Some c" None d n s])
      next
        case False
        with Pair att Some show ?thesis
          by (auto simp add: retry_loop.simps [of w "Some c" appid d n s]
              retry_loop.simps [of w "Some c" None d n s])
      qed
    qed
  qed
qed

subsection \<open>One attempt\<close>

lemma db_attempt_connect_fail:
  "engine_connect w (trace s) = Some ex \<Longrightarrow>
   db_attempt w compid appid deptype s =
     (s\<lparr>trace := trace s @ [EngineConnect (Some ex)]\<rparr>, Some ex)"
  by (simp add: db_attempt_def)

lemma db_attempt_execute_fail:
  "engine_connect w (trace s) = None \<Longrightarrow>
   cursor_execute w (trace s @ [EngineConnect None]) (query_sql compid appid)
     (query_params compid appid) = Inl ex \<Longrightarrow>
   db_attempt w compid appid deptype s =
     (s\<lparr>trace := trace s @ [EngineConnect None,
          CursorExecute (query_sql compid appid) (query_params compid appid) (Inl ex)]\<rparr>, Some ex)"
  by (simp add: db_attempt_def Let_def)

lemma db_attempt_rows:
  "engine_connect w (trace s) = None \<Longrightarrow>
   cursor_execute w (trace s @ [EngineConnect None]) (query_sql compid appid)
     (query_params compid appid) = Inr rows \<Longrightarrow>
   db_attempt w compid appid deptype s =
     for_rows w deptype rows
       (s\<lparr>trace := trace s @ [EngineConnect None,
            CursorExecute (query_sql compid appid) (query_params compid appid) (Inr rows)],
          valid_url := Map.empty\<rparr>)"
  by (simp add: db_attempt_def Let_def)

lemma db_attempt_cases:
  obtains (connect_fail) ex where "engine_connect w (trace s) = Some ex"
  | (execute_fail) ex where "engine_connect w (trace s) = None"
      "cursor_execute w (trace s @ [EngineConnect None]) (query_sql compid appid)
         (query_params compid appid) = Inl ex"
  | (rows) rows where "engine_connect w (trace s) = None"
      "cursor_execute w (trace s @ [EngineConnect None]) (query_sql compid appid)
         (query_params compid appid) = Inr rows"
proof (cases "engine_connect w (trace s)")
  case None
  then show ?thesis
    by (cases "cursor_execute w (trace s @ [EngineConnect None]) (query_sql compid appid)
         (query_params compid appid)") (auto intro: that)
next
  case (Some ex)
  then show ?thesis by (rule that(1))
qed

lemma row_body_new_events:
  "\<exists>evs. trace (fst (row_body w deptype row s)) = trace s @ evs \<and> list_all is_row_event evs"
  by (auto simp: row_body_def Let_def split: sum.splits option.splits)

lemma for_rows_new_events:
  "\<exists>evs. trace (fst (for_rows w deptype rows s)) = trace s @ evs \<and> list_all is_row_event evs"
proof (induction rows arbitrary: s)
  case Nil
  show ?case by simp
next
  case (Cons row rows)
  obtain s1 r where rb: "row_body w deptype row s = (s1, r)"
    by (cases "row_body w deptype row s")
  with row_body_new_events [of w deptype row s]
  obtain evs1 where e1: "trace s1 = trace s @ evs1" "list_all is_row_event evs1"
    by auto
  show ?case
  proof (cases r)
    case None
    from Cons.IH [of s1] obtain evs2 where
      "trace (fst (for_rows w deptype rows s1)) = trace s1 @ evs2" "list_all is_row_event evs2"
      by blast
    with e1 rb None show ?thesis by auto
  next
    case (Some ex)
    with e1 rb show ?thesis by auto
  qed
qed

lemma row_event_dep_query: "is_row_event e \<Longrightarrow> dep_query_event compid appid e"
  by (cases e) (auto simp: dep_query_event_def)

lemma db_attempt_dep_query:
  assumes "list_all (dep_query_event compid appid) (trace s)"
  shows "list_all (dep_query_event compid appid) (trace (fst (db_attempt w compid appid deptype s)))"
proof (cases rule: db_attempt_cases [where w = w and s = s and compid = compid and appid = appid])
  case (connect_fail ex)
  with assms show ?thesis
    by (simp add: db_attempt_connect_fail dep_query_event_def)
next
  case (execute_fail ex)
  with assms show ?thesis
    by (simp add: db_attempt_execute_fail dep_query_event_def)
next
  case (rows rows)
  let ?s1 = "s\<lparr>trace := trace s @ [EngineConnect None,
            CursorExecute (query_sql compid appid) (query_params compid appid) (Inr rows)],
          valid_url := Map.empty\<rparr>"
  from for_rows_new_events [of w deptype rows ?s1] obtain evs where
    evs: "trace (fst (for_rows w deptype rows ?s1)) = trace ?s1 @ evs" "list_all is_row_event evs"
    by blast
  from evs(2) have new: "list_all (dep_query_event compid appid) evs"
    by (auto simp: list_all_iff intro: row_event_dep_query)
  have own: "dep_query_event compid appid (EngineConnect None)"
    "dep_query_event compid appid
       (CursorExecute (query_sql compid appid) (query_params compid appid) (Inr rows))"
    by (simp_all add: dep_query_event_def)
  from rows assms evs(1) new own show ?thesis
    by (simp add: db_attempt_rows)
qed

lemma retry_loop_dep_query:
  assumes "list_all (dep_query_event compid appid) (trace s)"
  shows "list_all (dep_query_event compid appid)
           (trace (fst (retry_loop w compid appid deptype n s)))"
proof (rule retry_loop_rule [where I = "\<lambda>s. list_all (dep_query_event compid appid) (trace s)"
      and Q = "\<lambda>s' r. list_all (dep_query_event compid appid) (trace s')"])
  show "list_all (dep_query_event compid appid) (trace s)" by (rule assms)
next
  fix s s' ex
  assume "list_all (dep_query_event compid appid) (trace s)"
    and "db_attempt w compid appid deptype s = (s', Some ex)"
  then show "list_all (dep_query_event compid appid) (trace (s'\<lparr>trace := trace s' @ [Sleep 200]\<rparr>))"
    using db_attempt_dep_query [of compid appid s w deptype]
    by (simp add: dep_query_event_def)
next
  fix s s' r
  assume "list_all (dep_query_event compid appid) (trace s)"
    and "db_attempt w compid appid deptype s = (s', r)"
  then show "list_all (dep_query_event compid appid) (trace s')"
    using db_attempt_dep_query [of compid appid s w deptype] by simp
qed

lemma getCompPkgDeps_dep_query:
  "list_all (dep_query_event compid appid) (fst (getCompPkgDeps w cks compid appid deptype))"
proof -
  let ?tr = "[RequestsGet (validateuser_url w @ ''/msapi/validateuser'') cks (Inr (Some 200))]"
  have "list_all (dep_query_event compid appid)
          (trace (fst (retry_loop w compid appid deptype 1
             \<lparr>trace = ?tr, valid_url = Map.empty, response_data = []\<rparr>)))"
    by (rule retry_loop_dep_query) (simp add: dep_query_event_def)
  then show ?thesis
    by (auto simp: getCompPkgDeps_def Let_def dep_query_event_def
        split: sum.splits option.splits prod.splits)
qed

subsection \<open>Unfolding the handler\<close>

lemmas handler_eval =
  getCompPkgDeps_def retry_loop.simps db_attempt_def row_body_def Let_def
  vuln_query_def isBlank_def strip_def isspace_def split_first_def default_url_def
  query_sql_def query_params_def query_id_def id_param_def db_conn_retry_def

lemma retry_loop_step:
  "retry_loop w compid appid deptype n s =
     (case db_attempt w compid appid deptype s of
        (s', None) \<Rightarrow> (s', None)
      | (s', Some ex) \<Rightarrow>
          if is_conn_error ex \<and> n < 3
          then retry_loop w compid appid deptype (Suc n) (s'\<lparr>trace := trace s' @ [Sleep 200]\<rparr>)
          else (s', Some ex))"
  by (subst retry_loop.simps) (simp add: db_conn_retry_def split: prod.splits option.splits)

lemma db_attempt_trace_prefix:
  "\<exists>evs. trace (fst (db_attempt w compid appid deptype s)) = trace s @ evs"
proof (cases rule: db_attempt_cases [where w = w and s = s and compid = compid and appid = appid])
  case (connect_fail ex)
  then show ?thesis by (simp add: db_attempt_connect_fail)
next
  case (execute_fail ex)
  then show ?thesis by (simp add: db_attempt_execute_fail)
next
  case (rows rows)
  then show ?thesis
    using for_rows_new_events [of w deptype rows
        "s\<lparr>trace := trace s @ [EngineConnect None,
            CursorExecute (query_sql compid appid) (query_params compid appid) (Inr rows)],
          valid_url := Map.empty\<rparr>"]
    by (auto simp: db_attempt_rows)
qed

lemma retry_loop_trace_prefix:
  "\<exists>evs. trace (fst (retry_loop w compid appid deptype n s)) = trace s @ evs"
proof (rule retry_loop_rule [where I = "\<lambda>s'. \<exists>evs. trace s' = trace s @ evs"
      and Q = "\<lambda>s' r. \<exists>evs. trace s' = trace s @ evs"])
  show "\<exists>evs. trace s = trace s @ evs" by simp
next
  fix s1 s' ex
  assume "\<exists>evs. trace s1 = trace s @ evs"
    and "db_attempt w compid appid deptype s1 = (s', Some ex)"
  then show "\<exists>evs. trace (s'\<lparr>trace := trace s' @ [Sleep 200]\<rparr>) = trace s @ evs"
    using db_attempt_trace_prefix [of w compid appid deptype s1] by auto
next
  fix s1 s' r
  assume "\<exists>evs. trace s1 = trace s @ evs"
    and "db_attempt w compid appid deptype s1 = (s', r)"
  then show "\<exists>evs. trace s' = trace s @ evs"
    using db_attempt_trace_prefix [of w compid appid deptype s1] by auto
qed

lemma retry_loop_keeps_first_attempt:
  "set (trace (fst (db_attempt w compid appid deptype s)))
     \<subseteq> set (trace (fst (retry_loop w compid appid deptype n s)))"
proof -
  obtain s' r where att: "db_attempt w compid appid deptype s = (s', r)"
    by (cases "db_attempt w compid appid deptype s")
  show ?thesis
  proof (cases "\<exists>ex. r = Some ex \<and> is_conn_error ex \<and> n < 3")
    case True
    then have "retry_loop w compid appid deptype n s =
        retry_loop w compid appid deptype (Suc n) (s'\<lparr>trace := trace s' @ [Sleep 200]\<rparr>)"
      using att by (subst retry_loop_step) auto
    then show ?thesis
      using att retry_loop_trace_prefix [of w compid appid deptype "Suc n"
          "s'\<lparr>trace := trace s' @ [Sleep 200]\<rparr>"]
      by auto
  next
    case False
    then have "retry_loop w compid appid deptype n s = (s', r)"
      using att by (subst retry_loop_step) (auto split: option.splits)
    with att show ?thesis by simp
  qed
qed

lemma db_attempt_empty_sql:
  assumes "\<forall>h ps. \<exists>ex. cursor_execute w h [] ps = Inl ex"
  shows "\<exists>ex. snd (db_attempt w None None deptype s) = Some ex \<and>
           (last (trace (fst (db_attempt w None None deptype s))) = EngineConnect (Some ex) \<or>
            last (trace (fst (db_attempt w None None deptype s))) =
              CursorExecute [] [PNone, PStr ''license''] (Inl ex))"
proof (cases "engine_connect w (trace s)")
  case (Some ex)
  then show ?thesis by (simp add: db_attempt_connect_fail)
next
  case None
  from assms obtain ex where
    "cursor_execute w (trace s @ [EngineConnect None]) [] [PNone, PStr ''license''] = Inl ex"
    by blast
  with None show ?thesis
    using db_attempt_execute_fail [of w s None None ex deptype]
    by (simp add: query_sql_def query_params_def query_id_def id_param_def)
qed

subsection \<open>The license branch\<close>

lemma row_events_no_fetch: "list_all is_row_event evs \<Longrightarrow> fetched_rows evs = []"
  by (induction evs rule: fetched_rows.induct) auto

lemma for_rows_fetched:
  "fetched_rows (trace (fst (for_rows w deptype rows s))) = fetched_rows (trace s)"
  using for_rows_new_events [of w deptype rows s]
  by (auto simp: fetched_rows_append row_events_no_fetch)

lemma for_rows_license_not_retried:
  "snd (for_rows w ''license'' rows s) = Some ex \<Longrightarrow> \<not> is_conn_error ex"
proof (induction rows arbitrary: s)
  case Nil
  then show ?case by simp
next
  case (Cons row rows)
  show ?case
  proof (cases "valid_url s (r_name row)")
    case (Some u)
    with Cons show ?thesis
      by (simp add: row_body_license_known)
  next
    case None
    show ?thesis
    proof (cases "requests_head w (trace s) (default_url (r_url row))")
      case (Inl m)
      with None Cons.prems show ?thesis
        by (auto simp: row_body_license_raise)
    next
      case (Inr code)
      with None Cons show ?thesis
        by (simp add: row_body_license_head)
    qed
  qed
qed

lemma for_rows_license_heads:
  "\<exists>rows'. head_urls (trace (fst (for_rows w ''license'' rows s))) =
             head_urls (trace s) @ map (\<lambda>r. default_url (r_url r)) rows' \<and>
           distinct (map r_name rows') \<and> set rows' \<subseteq> set rows \<and>
           (\<forall>r\<in>set rows'. valid_url s (r_name r) = None)"
proof (induction rows arbitrary: s)
  case Nil
  show ?case by simp
next
  case (Cons row rows)
  show ?case
  proof (cases "valid_url s (r_name row)")
    case (Some u)
    let ?s1 = "s\<lparr>response_data := response_data s @ [license_entry row u]\<rparr>"
    from Cons.IH [of ?s1] obtain rows' where
      "head_urls (trace (fst (for_rows w ''license'' rows ?s1))) =
         head_urls (trace ?s1) @ map (\<lambda>r. default_url (r_url r)) rows'"
      "distinct (map r_name rows')" "set rows' \<subseteq> set rows"
      "\<forall>r\<in>set rows'. valid_url ?s1 (r_name r) = None"
      by blast
    with Some show ?thesis
      by (intro exI [of _ rows']) (auto simp: row_body_license_known)
  next
    case None
    show ?thesis
    proof (cases "requests_head w (trace s) (default_url (r_url row))")
      case (Inl m)
      with None show ?thesis
        by (intro exI [of _ "[row]"]) (simp add: row_body_license_raise head_urls_append)
    next
      case (Inr code)
      define u where "u = (if code = 200 then default_url (r_url row) else spdx_url)"
      let ?s1 = "s\<lparr>trace := trace s @ [RequestsHead (default_url (r_url row)) (Inr code)],
        valid_url := (valid_url s)(r_name row \<mapsto> u),
        response_data := response_data s @ [license_entry row u]\<rparr>"
      have rb: "row_body w ''license'' row s = (?s1, None)"
        using None Inr u_def by (rule row_body_license_head)
      from Cons.IH [of ?s1] obtain rows' where r:
        "head_urls (trace (fst (for_rows w ''license'' rows ?s1))) =
           head_urls (trace ?s1) @ map (\<lambda>r. default_url (r_url r)) rows'"
        "distinct (map r_name rows')" "set rows' \<subseteq> set rows"
        "\<forall>r\<in>set rows'. valid_url ?s1 (r_name r) = None"
        by blast
      from r(4) have fresh: "\<forall>r\<in>set rows'. r_name r \<noteq> r_name row \<and> valid_url s (r_name r) = None"
        by (auto split: if_splits)
      show ?thesis
        using rb r(1,2,3) fresh None
        by (intro exI [of _ "row # rows'"]) (auto simp: head_urls_append)
    qed
  qed
qed

lemma db_attempt_license_heads:
  assumes "head_urls (trace s) = []"
  shows "\<exists>rows'. head_urls (trace (fst (db_attempt w compid appid ''license'' s))) =
             map (\<lambda>r. default_url (r_url r)) rows' \<and>
           distinct (map r_name rows') \<and>
           set rows' \<subseteq> set (fetched_rows (trace (fst (db_attempt w compid appid ''license'' s))))"
proof (cases rule: db_attempt_cases [where w = w and s = s and compid = compid and appid = appid])
  case (connect_fail ex)
  with assms show ?thesis
    by (intro exI [of _ "[]"]) (simp add: db_attempt_connect_fail head_urls_append)
next
  case (execute_fail ex)
  with assms show ?thesis
    by (intro exI [of _ "[]"]) (simp add: db_attempt_execute_fail head_urls_append)
next
  case (rows rows)
  let ?s1 = "s\<lparr>trace := trace s @ [EngineConnect None,
            CursorExecute (query_sql compid appid) (query_params compid appid) (Inr rows)],
          valid_url := Map.empty\<rparr>"
  from for_rows_license_heads [of w rows ?s1] obtain rows' where
    "head_urls (trace (fst (for_rows w ''license'' rows ?s1))) =
       head_urls (trace ?s1) @ map (\<lambda>r. default_url (r_url r)) rows'"
    "distinct (map r_name rows')" "set rows' \<subseteq> set rows"
    by blast
  with rows assms show ?thesis
    by (intro exI [of _ rows'])
      (auto simp: db_attempt_rows for_rows_fetched head_urls_append fetched_rows_append)
qed

lemma db_attempt_license_retried:
  assumes "db_attempt w compid appid ''license'' s = (s', Some ex)" and "is_conn_error ex"
  shows "head_urls (trace s') = head_urls (trace s) \<and> response_data s' = response_data s"
proof (cases rule: db_attempt_cases [where w = w and s = s and compid = compid and appid = appid])
  case (connect_fail ex)
  with assms show ?thesis
    by (auto simp: db_attempt_connect_fail head_urls_append)
next
  case (execute_fail ex)
  with assms show ?thesis
    by (auto simp: db_attempt_execute_fail head_urls_append)
next
  case (rows rows)
  with assms show ?thesis
    using for_rows_license_not_retried [of w rows "s\<lparr>trace := trace s @ [EngineConnect None,
            CursorExecute (query_sql compid appid) (query_params compid appid) (Inr rows)],
          valid_url := Map.empty\<rparr>" ex]
    by (simp add: db_attempt_rows)
qed

lemma retry_loop_license_heads:
  assumes "head_urls (trace s) = []"
  shows "\<exists>rows'. head_urls (trace (fst (retry_loop w compid appid ''license'' n s))) =
             map (\<lambda>r. default_url (r_url r)) rows' \<and>
           distinct (map r_name rows') \<and>
           set rows' \<subseteq> set (fetched_rows (trace (fst (retry_loop w compid appid ''license'' n s))))"
proof (rule retry_loop_rule [where I = "\<lambda>s. head_urls (trace s) = []"
      and Q = "\<lambda>s' r. \<exists>rows'. head_urls (trace s') = map (\<lambda>r. default_url (r_url r)) rows' \<and>
           distinct (map r_name rows') \<and> set rows' \<subseteq> set (fetched_rows (trace s'))"])
  show "head_urls (trace s) = []" by (rule assms)
next
  fix s s' ex
  assume "head_urls (trace s) = []" "db_attempt w compid appid ''license'' s = (s', Some ex)"
    "is_conn_error ex"
  then show "head_urls (trace (s'\<lparr>trace := trace s' @ [Sleep 200]\<rparr>)) = []"
    using db_attempt_license_retried [of w compid appid s s' ex]
    by (simp add: head_urls_append)
next
  fix s s' r
  assume "head_urls (trace s) = []" "db_attempt w compid appid ''license'' s = (s', r)"
  then show "\<exists>rows'. head_urls (trace s') = map (\<lambda>r. default_url (r_url r)) rows' \<and>
           distinct (map r_name rows') \<and> set rows' \<subseteq> set (fetched_rows (trace s'))"
    using db_attempt_license_heads [of s w compid appid] by simp
qed

lemma default_url_not_Nil: "default_url u \<noteq> []"
  by (simp add: default_url_def spdx_url_def split: option.splits)

lemma find_append:
  "find P (xs @ ys) = (case find P xs of None \<Rightarrow> find P ys | Some x \<Rightarrow> Some x)"
  by (induction xs) auto

lemma url_ok_mono:
  assumes "url_ok tr pre n u" and "set tr \<subseteq> set tr'"
  shows "url_ok tr' (pre @ post) n u"
  using assms by (auto simp: url_ok_def find_append split: option.splits)

lemma for_rows_trace_mono: "set (trace s) \<subseteq> set (trace (fst (for_rows w deptype rows s)))"
  using for_rows_new_events [of w deptype rows s] by auto

lemma for_rows_license_data:
  assumes "for_rows w ''license'' rows s = (s', None)" and "memo_inv s pre"
  shows "\<exists>new. response_data s' = response_data s @ new \<and>
           list_all2 (\<lambda>r e. e = license_entry r (url e) \<and>
                        url_ok (trace s') (pre @ rows) (r_name r) (url e)) rows new"
  using assms
proof (induction rows arbitrary: s pre)
  case Nil
  then show ?case by simp
next
  case (Cons row rows)
  have mono: "set (trace s1) \<subseteq> set (trace s')" if "for_rows w ''license'' rows s1 = (s', None)" for s1
    using for_rows_trace_mono [of s1 w "''license''" rows] that by simp
  show ?case
  proof (cases "valid_url s (r_name row)")
    case (Some u)
    let ?s1 = "s\<lparr>response_data := response_data s @ [license_entry row u]\<rparr>"
    from Some Cons.prems(1) have run: "for_rows w ''license'' rows ?s1 = (s', None)"
      by (simp add: row_body_license_known)
    from Cons.prems(2) have "(valid_url s (r_name row) = None) = (r_name row \<notin> r_name ` set pre)"
      by (simp add: memo_inv_def)
    with Some have known: "r_name row \<in> r_name ` set pre"
      by simp
    from Some Cons.prems(2) have ok: "url_ok (trace s) pre (r_name row) u"
      by (simp add: memo_inv_def)
    have inv1: "memo_inv ?s1 (pre @ [row])"
      using Cons.prems(2) known url_ok_mono [of "trace s" pre _ _ "trace s" "[row]"]
      by (auto simp: memo_inv_def)
    from Cons.IH [OF run inv1] obtain new where new:
      "response_data s' = response_data ?s1 @ new"
      "list_all2 (\<lambda>r e. e = license_entry r (url e) \<and>
          url_ok (trace s') ((pre @ [row]) @ rows) (r_name r) (url e)) rows new"
      by blast
    have "url_ok (trace s') (pre @ row # rows) (r_name row) u"
      using url_ok_mono [OF ok, of "trace s'" "row # rows"] mono [OF run] by simp
    with new show ?thesis
      by (intro exI [of _ "license_entry row u # new"]) (simp add: license_entry_def)
  next
    case None
    show ?thesis
    proof (cases "requests_head w (trace s) (default_url (r_url row))")
      case (Inl m)
      with None Cons.prems(1) show ?thesis
        by (simp add: row_body_license_raise)
    next
      case (Inr code)
      define u where "u = (if code = 200 then default_url (r_url row) else spdx_url)"
      let ?s1 = "s\<lparr>trace := trace s @ [RequestsHead (default_url (r_url row)) (Inr code)],
        valid_url := (valid_url s)(r_name row \<mapsto> u),
        response_data := response_data s @ [license_entry row u]\<rparr>"
      have rb: "row_body w ''license'' row s = (?s1, None)"
        using None Inr u_def by (rule row_body_license_head)
      with Cons.prems(1) have run: "for_rows w ''license'' rows ?s1 = (s', None)"
        by simp
      from Cons.prems(2) have "(valid_url s (r_name row) = None) = (r_name row \<notin> r_name ` set pre)"
        by (simp add: memo_inv_def)
      with None have fresh: "r_name row \<notin> r_name ` set pre"
        by simp
      have "find (\<lambda>r. r_name r = r_name row) pre = None"
        unfolding find_None_iff
      proof (intro notI, elim exE conjE)
        fix x
        assume "x \<in> set pre" "r_name x = r_name row"
        then have "r_name row \<in> r_name ` set pre"
          by (metis imageI)
        with fresh show False by contradiction
      qed
      then have first: "find (\<lambda>r. r_name r = r_name row) (pre @ row # post) = Some row" for post
        by (simp add: find_append)
      have ok: "url_ok (trace ?s1) (pre @ [row]) (r_name row) u"
        using first [of "[]"] by (auto simp: url_ok_def u_def default_url_not_Nil spdx_url_def)
      have inv1: "memo_inv ?s1 (pre @ [row])"
        unfolding memo_inv_def
      proof (intro conjI allI impI)
        fix n
        show "valid_url ?s1 n = None \<longleftrightarrow> n \<notin> r_name ` set (pre @ [row])"
          using Cons.prems(2) by (auto simp: memo_inv_def)
      next
        fix n v
        assume v: "valid_url ?s1 n = Some v"
        show "url_ok (trace ?s1) (pre @ [row]) n v"
        proof (cases "n = r_name row")
          case True
          with v ok show ?thesis by simp
        next
          case False
          with v Cons.prems(2) have "url_ok (trace s) pre n v"
            by (simp add: memo_inv_def)
          then show ?thesis
            by (rule url_ok_mono) auto
        qed
      qed
      from Cons.IH [OF run inv1] obtain new where new:
        "response_data s' = response_data ?s1 @ new"
        "list_all2 (\<lambda>r e. e = license_entry r (url e) \<and>
            url_ok (trace s') ((pre @ [row]) @ rows) (r_name r) (url e)) rows new"
        by blast
      have "url_ok (trace s') (pre @ row # rows) (r_name row) u"
        using url_ok_mono [OF ok, of "trace s'" rows] mono [OF run] by simp
      with new show ?thesis
        by (intro exI [of _ "license_entry row u # new"]) (simp add: license_entry_def)
    qed
  qed
qed


lemma db_attempt_license_data:
  assumes "response_data s = []" and "db_attempt w compid appid ''license'' s = (s', None)"
  shows "\<exists>rows. CursorExecute (query_sql compid appid) (query_params compid appid) (Inr rows)
             \<in> set (trace s') \<and>
           list_all2 (\<lambda>r e. e = license_entry r (url e) \<and>
                        url_ok (trace s') rows (r_name r) (url e)) rows (response_data s')"
proof (cases rule: db_attempt_cases [where w = w and s = s and compid = compid and appid = appid])
  case (connect_fail ex)
  with assms show ?thesis by (simp add: db_attempt_connect_fail)
next
  case (execute_fail ex)
  with assms show ?thesis by (simp add: db_attempt_execute_fail)
next
  case (rows rows)
  let ?s1 = "s\<lparr>trace := trace s @ [EngineConnect None,
            CursorExecute (query_sql compid appid) (query_params compid appid) (Inr rows)],
          valid_url := Map.empty\<rparr>"
  from rows assms(2) have run: "for_rows w ''license'' rows ?s1 = (s', None)"
    by (simp add: db_attempt_rows)
  have inv: "memo_inv ?s1 []"
    by (simp add: memo_inv_def)
  from for_rows_license_data [OF run inv] assms(1) have
    "list_all2 (\<lambda>r e. e = license_entry r (url e) \<and>
        url_ok (trace s') rows (r_name r) (url e)) rows (response_data s')"
    by auto
  moreover have "CursorExecute (query_sql compid appid) (query_params compid appid) (Inr rows)
      \<in> set (trace s')"
    using for_rows_trace_mono [of ?s1 w "''license''" rows] run by auto
  ultimately show ?thesis by blast
qed

lemma retry_loop_license_data:
  assumes "response_data s = []" and "retry_loop w compid appid ''license'' n s = (s', None)"
  shows "\<exists>rows. CursorExecute (query_sql compid appid) (query_params compid appid) (Inr rows)
             \<in> set (trace s') \<and>
           list_all2 (\<lambda>r e. e = license_entry r (url e) \<and>
                        url_ok (trace s') rows (r_name r) (url e)) rows (response_data s')"
proof -
  have "snd (retry_loop w compid appid ''license'' n s) = None \<longrightarrow>
      (\<exists>rows. CursorExecute (query_sql compid appid) (query_params compid appid) (Inr rows)
             \<in> set (trace (fst (retry_loop w compid appid ''license'' n s))) \<and>
           list_all2 (\<lambda>r e. e = license_entry r (url e) \<and>
                        url_ok (trace (fst (retry_loop w compid appid ''license'' n s))) rows
                          (r_name r) (url e)) rows
             (response_data (fst (retry_loop w compid appid ''license'' n s))))"
  proof (rule retry_loop_rule [where I = "\<lambda>s. response_data s = []"
        and Q = "\<lambda>s' r. r = None \<longrightarrow>
          (\<exists>rows. CursorExecute (query_sql compid appid) (query_params compid appid) (Inr rows)
             \<in> set (trace s') \<and>
           list_all2 (\<lambda>r e. e = license_entry r (url e) \<and>
                        url_ok (trace s') rows (r_name r) (url e)) rows (response_data s'))"])
    show "response_data s = []" by (rule assms(1))
  next
    fix s s' ex
    assume "response_data s = []" "db_attempt w compid appid ''license'' s = (s', Some ex)"
      "is_conn_error ex"
    then show "response_data (s'\<lparr>trace := trace s' @ [Sleep 200]\<rparr>) = []"
      using db_attempt_license_retried [of w compid appid s s' ex] by simp
  next
    fix s s' r
    assume "response_data s = []" "db_attempt w compid appid ''license'' s = (s', r)"
    then show "r = None \<longrightarrow>
          (\<exists>rows. CursorExecute (query_sql compid appid) (query_params compid appid) (Inr rows)
             \<in> set (trace s') \<and>
           list_all2 (\<lambda>r e. e = license_entry r (url e) \<and>
                        url_ok (trace s') rows (r_name r) (url e)) rows (response_data s'))"
      using db_attempt_license_data [of s w compid appid s'] by blast
  qed
  with assms(2) show ?thesis by simp
qed

subsection \<open>The vulnerability branch\<close>

lemma for_rows_cve_data:
  assumes "deptype \<noteq> ''license''" and "for_rows w deptype rows s = (s', None)"
  shows "\<exists>vss. length vss = length rows \<and>
           trace s' = trace s @ map2 lookup_event rows vss \<and>
           response_data s' =
             response_data s @ concat (map2 (\<lambda>row v_rows. map (vuln_entry row) v_rows) rows vss)"
  using assms(2)
proof (induction rows arbitrary: s)
  case Nil
  then show ?case by simp
next
  case (Cons row rows)
  show ?case
  proof (cases "v_cursor_execute w (trace s) (fst (vuln_query row)) (snd (vuln_query row))")
    case (Inl ex)
    with assms(1) Cons.prems show ?thesis
      by (simp add: row_body_cve_raise)
  next
    case (Inr v_rows)
    let ?s1 = "s\<lparr>trace := trace s @
          [VCursorExecute (fst (vuln_query row)) (snd (vuln_query row)) (Inr v_rows)],
        response_data := response_data s @ map (vuln_entry row) v_rows\<rparr>"
    from assms(1) Inr Cons.prems have run: "for_rows w deptype rows ?s1 = (s', None)"
      by (simp add: row_body_cve_rows)
    from Cons.IH [OF run] obtain vss where vss: "length vss = length rows"
      "trace s' = trace ?s1 @ map2 lookup_event rows vss"
      "response_data s' =
         response_data ?s1 @ concat (map2 (\<lambda>row v_rows. map (vuln_entry row) v_rows) rows vss)"
      by blast
    then show ?thesis
      by (intro exI [of _ "v_rows # vss"]) (simp add: lookup_event_def vuln_query_spec)
  qed
qed

lemma row_body_cve_leftover:
  assumes "deptype \<noteq> ''license''"
    and "response_data s \<noteq> [] \<longrightarrow> list_ex is_lookup (trace s)"
  shows "response_data (fst (row_body w deptype row s)) \<noteq> [] \<longrightarrow>
         list_ex is_lookup (trace (fst (row_body w deptype row s)))"
  using assms
  by (cases "v_cursor_execute w (trace s) (fst (vuln_query row)) (snd (vuln_query row))")
    (simp_all add: row_body_cve_raise row_body_cve_rows)

lemma for_rows_cve_leftover:
  assumes "deptype \<noteq> ''license''"
    and "response_data s \<noteq> [] \<longrightarrow> list_ex is_lookup (trace s)"
  shows "response_data (fst (for_rows w deptype rows s)) \<noteq> [] \<longrightarrow>
         list_ex is_lookup (trace (fst (for_rows w deptype rows s)))"
  using assms(2)
proof (induction rows arbitrary: s)
  case Nil
  then show ?case by simp
next
  case (Cons row rows)
  obtain s1 r where rb: "row_body w deptype row s = (s1, r)"
    by (cases "row_body w deptype row s")
  with row_body_cve_leftover [OF assms(1) Cons.prems, of w row]
  have s1: "response_data s1 \<noteq> [] \<longrightarrow> list_ex is_lookup (trace s1)"
    by simp
  show ?case
  proof (cases r)
    case None
    with rb Cons.IH [OF s1] show ?thesis by simp
  next
    case (Some ex)
    with rb s1 show ?thesis by simp
  qed
qed

lemma db_attempt_cve_leftover:
  assumes "deptype \<noteq> ''license''"
    and "response_data s \<noteq> [] \<longrightarrow> list_ex is_lookup (trace s)"
  shows "response_data (fst (db_attempt w compid appid deptype s)) \<noteq> [] \<longrightarrow>
         list_ex is_lookup (trace (fst (db_attempt w compid appid deptype s)))"
proof (cases rule: db_attempt_cases [where w = w and s = s and compid = compid and appid = appid])
  case (connect_fail ex)
  with assms(2) show ?thesis by (simp add: db_attempt_connect_fail)
next
  case (execute_fail ex)
  with assms(2) show ?thesis by (simp add: db_attempt_execute_fail)
next
  case (rows rows)
  then show ?thesis
    using for_rows_cve_leftover [OF assms(1), of
        "s\<lparr>trace := trace s @ [EngineConnect None,
            CursorExecute (query_sql compid appid) (query_params compid appid) (Inr rows)],
          valid_url := Map.empty\<rparr>" w rows] assms(2)
    by (simp add: db_attempt_rows)
qed

lemma db_attempt_cve_data:
  assumes "deptype \<noteq> ''license''" and "db_attempt w compid appid deptype s = (s', None)"
  shows "\<exists>rows vss. length vss = length rows \<and>
           trace s' = trace s @ EngineConnect None #
             CursorExecute (query_sql compid appid) (query_params compid appid) (Inr rows) #
             map2 lookup_event rows vss \<and>
           response_data s' =
             response_data s @ concat (map2 (\<lambda>row v_rows. map (vuln_entry row) v_rows) rows vss)"
proof (cases rule: db_attempt_cases [where w = w and s = s and compid = compid and appid = appid])
  case (connect_fail ex)
  with assms show ?thesis by (simp add: db_attempt_connect_fail)
next
  case (execute_fail ex)
  with assms show ?thesis by (simp add: db_attempt_execute_fail)
next
  case (rows rows)
  let ?s1 = "s\<lparr>trace := trace s @ [EngineConnect None,
            CursorExecute (query_sql compid appid) (query_params compid appid) (Inr rows)],
          valid_url := Map.empty\<rparr>"
  from rows assms(2) have run: "for_rows w deptype rows ?s1 = (s', None)"
    by (simp add: db_attempt_rows)
  from for_rows_cve_data [OF assms(1) run] obtain vss where "length vss = length rows"
    "trace s' = trace ?s1 @ map2 lookup_event rows vss"
    "response_data s' =
       response_data ?s1 @ concat (map2 (\<lambda>row v_rows. map (vuln_entry row) v_rows) rows vss)"
    by blast
  then show ?thesis
    by (intro exI [of _ rows] exI [of _ vss]) simp
qed

lemma retry_loop_cve_data:
  assumes "deptype \<noteq> ''license''" and "response_data s = []"
    and "retry_loop w compid appid deptype n s = (s', None)"
  shows "\<exists>tr0 data0 rows vss. length vss = length rows \<and>
           trace s' = tr0 @ EngineConnect None #
             CursorExecute (query_sql compid appid) (query_params compid appid) (Inr rows) #
             map2 lookup_event rows vss \<and>
           response_data s' =
             data0 @ concat (map2 (\<lambda>row v_rows. map (vuln_entry row) v_rows) rows vss) \<and>
           (data0 \<noteq> [] \<longrightarrow> list_ex is_lookup tr0)"
proof -
  let ?Q = "\<lambda>s' r. r = None \<longrightarrow>
    (\<exists>tr0 data0 rows vss. length vss = length rows \<and>
           trace s' = tr0 @ EngineConnect None #
             CursorExecute (query_sql compid appid) (query_params compid appid) (Inr rows) #
             map2 lookup_event rows vss \<and>
           response_data s' =
             data0 @ concat (map2 (\<lambda>row v_rows. map (vuln_entry row) v_rows) rows vss) \<and>
           (data0 \<noteq> [] \<longrightarrow> list_ex is_lookup tr0))"
  have "?Q (fst (retry_loop w compid appid deptype n s)) (snd (retry_loop w compid appid deptype n s))"
  proof (rule retry_loop_rule [where I = "\<lambda>s. response_data s \<noteq> [] \<longrightarrow> list_ex is_lookup (trace s)"])
    show "response_data s \<noteq> [] \<longrightarrow> list_ex is_lookup (trace s)"
      using assms(2) by simp
  next
    fix s s' ex
    assume "response_data s \<noteq> [] \<longrightarrow> list_ex is_lookup (trace s)"
      and "db_attempt w compid appid deptype s = (s', Some ex)"
    then show "response_data (s'\<lparr>trace := trace s' @ [Sleep 200]\<rparr>) \<noteq> [] \<longrightarrow>
        list_ex is_lookup (trace (s'\<lparr>trace := trace s' @ [Sleep 200]\<rparr>))"
      using db_attempt_cve_leftover [OF assms(1), of s w compid appid] by simp
  next
    fix s s' r
    assume inv: "response_data s \<noteq> [] \<longrightarrow> list_ex is_lookup (trace s)"
      and att: "db_attempt w compid appid deptype s = (s', r)"
    show "?Q s' r"
    proof
      assume "r = None"
      with att db_attempt_cve_data [OF assms(1), of w compid appid s s']
      obtain rows vss where "length vss = length rows"
        "trace s' = trace s @ EngineConnect None #
             CursorExecute (query_sql compid appid) (query_params compid appid) (Inr rows) #
             map2 lookup_event rows vss"
        "response_data s' =
             response_data s @ concat (map2 (\<lambda>row v_rows. map (vuln_entry row) v_rows) rows vss)"
        by blast
      with inv show "\<exists>tr0 data0 rows vss. length vss = length rows \<and>
           trace s' = tr0 @ EngineConnect None #
             CursorExecute (query_sql compid appid) (query_params compid appid) (Inr rows) #
             map2 lookup_event rows vss \<and>
           response_data s' =
             data0 @ concat (map2 (\<lambda>row v_rows. map (vuln_entry row) v_rows) rows vss) \<and>
           (data0 \<noteq> [] \<longrightarrow> list_ex is_lookup tr0)"
        by (intro exI [of _ "trace s"] exI [of _ "response_data s"] exI [of _ rows] exI [of _ vss])
          simp
    qed
  qed
  with assms(3) show ?thesis by simp
qed

subsection \<open>The trace up to the first dependency query\<close>

lemma upto_fetch_append:
  "upto_fetch (xs @ ys) = (if list_ex is_fetch xs then upto_fetch xs else xs @ upto_fetch ys)"
  by (induction xs) auto

lemma row_event_no_fetch: "is_row_event e \<Longrightarrow> \<not> is_fetch e"
  by (cases e) auto

lemma db_attempt_upto_fetch:
  "upto_fetch (trace (fst (db_attempt w compid appid d1 s))) =
   upto_fetch (trace (fst (db_attempt w compid appid d2 s))) \<and>
   (list_ex is_fetch (trace (fst (db_attempt w compid appid d1 s))) \<longleftrightarrow>
    list_ex is_fetch (trace (fst (db_attempt w compid appid d2 s)))) \<and>
   (\<not> list_ex is_fetch (trace (fst (db_attempt w compid appid d1 s))) \<longrightarrow>
    db_attempt w compid appid d1 s = db_attempt w compid appid d2 s)"
proof (cases rule: db_attempt_cases [where w = w and s = s and compid = compid and appid = appid])
  case (connect_fail ex)
  then show ?thesis by (simp add: db_attempt_connect_fail)
next
  case (execute_fail ex)
  then show ?thesis by (simp add: db_attempt_execute_fail)
next
  case (rows rows)
  let ?s1 = "s\<lparr>trace := trace s @ [EngineConnect None,
            CursorExecute (query_sql compid appid) (query_params compid appid) (Inr rows)],
          valid_url := Map.empty\<rparr>"
  have "\<exists>evs. trace (fst (db_attempt w compid appid d s)) = trace ?s1 @ evs" for d
    using for_rows_new_events [of w d rows ?s1] rows by (auto simp: db_attempt_rows)
  then obtain evs1 evs2 where
    "trace (fst (db_attempt w compid appid d1 s)) = trace ?s1 @ evs1"
    "trace (fst (db_attempt w compid appid d2 s)) = trace ?s1 @ evs2"
    by blast
  then show ?thesis
    by (simp add: upto_fetch_append)
qed

lemma retry_loop_first_attempt_prefix:
  "\<exists>evs. trace (fst (retry_loop w compid appid deptype n s)) =
           trace (fst (db_attempt w compid appid deptype s)) @ evs"
proof -
  obtain s' r where att: "db_attempt w compid appid deptype s = (s', r)"
    by (cases "db_attempt w compid appid deptype s")
  show ?thesis
  proof (cases "\<exists>ex. r = Some ex \<and> is_conn_error ex \<and> n < 3")
    case True
    then have "retry_loop w compid appid deptype n s =
        retry_loop w compid appid deptype (Suc n) (s'\<lparr>trace := trace s' @ [Sleep 200]\<rparr>)"
      using att by (subst retry_loop_step) auto
    then show ?thesis
      using att retry_loop_trace_prefix [of w compid appid deptype "Suc n"
          "s'\<lparr>trace := trace s' @ [Sleep 200]\<rparr>"]
      by auto
  next
    case False
    then have "retry_loop w compid appid deptype n s = (s', r)"
      using att by (subst retry_loop_step) (auto split: option.splits)
    with att show ?thesis by simp
  qed
qed

lemma retry_loop_upto_fetch:
  "upto_fetch (trace (fst (retry_loop w compid appid d1 n s))) =
   upto_fetch (trace (fst (retry_loop w compid appid d2 n s)))"
proof (induction w compid appid d1 n s rule: retry_loop.induct)
  case (1 w compid appid d1 n s)
  obtain s1 r1 where a1: "db_attempt w compid appid d1 s = (s1, r1)"
    by (cases "db_attempt w compid appid d1 s")
  obtain s2 r2 where a2: "db_attempt w compid appid d2 s = (s2, r2)"
    by (cases "db_attempt w compid appid d2 s")
  from db_attempt_upto_fetch [of w compid appid d1 s d2] a1 a2
  have same: "upto_fetch (trace s1) = upto_fetch (trace s2)"
    and both: "list_ex is_fetch (trace s1) \<longleftrightarrow> list_ex is_fetch (trace s2)"
    and eq: "\<not> list_ex is_fetch (trace s1) \<Longrightarrow> (s1, r1) = (s2, r2)"
    by simp_all
  show ?case
  proof (cases "list_ex is_fetch (trace s1)")
    case True
    from retry_loop_first_attempt_prefix [of w compid appid d1 n s] a1 True
    have "upto_fetch (trace (fst (retry_loop w compid appid d1 n s))) = upto_fetch (trace s1)"
      by (auto simp: upto_fetch_append)
    moreover from retry_loop_first_attempt_prefix [of w compid appid d2 n s] a2 True both
    have "upto_fetch (trace (fst (retry_loop w compid appid d2 n s))) = upto_fetch (trace s2)"
      by (auto simp: upto_fetch_append)
    ultimately show ?thesis using same by simp
  next
    case False
    with eq have e: "s2 = s1" "r2 = r1" by simp_all
    show ?thesis
    proof (cases "\<exists>ex. r1 = Some ex \<and> is_conn_error ex \<and> n < db_conn_retry")
      case True
      then obtain ex where ex: "r1 = Some ex" "is_conn_error ex" "n < db_conn_retry"
        by blast
      have u1: "retry_loop w compid appid d1 n s =
          retry_loop w compid appid d1 (n + 1) (s1\<lparr>trace := trace s1 @ [Sleep 200]\<rparr>)"
        using a1 ex by (simp add: retry_loop.simps [of w compid appid d1 n s])
      have u2: "retry_loop w compid appid d2 n s =
          retry_loop w compid appid d2 (n + 1) (s1\<lparr>trace := trace s1 @ [Sleep 200]\<rparr>)"
        using a2 e ex by (simp add: retry_loop.simps [of w compid appid d2 n s])
      show ?thesis
        unfolding u1 u2 by (rule "1.IH" [OF a1 [symmetric] ex(1) ex(2) ex(3)])
    next
      case False
      then have "retry_loop w compid appid d1 n s = (s1, r1)"
        using a1 by (cases r1) (auto simp: retry_loop.simps [of w compid appid d1 n s])
      moreover from False have "retry_loop w compid appid d2 n s = (s1, r1)"
        using a2 e by (cases r1) (auto simp: retry_loop.simps [of w compid appid d2 n s])
      ultimately show ?thesis by simp
    qed
  qed
qed

lemma getCompPkgDeps_upto_fetch:
  "upto_fetch (fst (getCompPkgDeps w cks compid appid d1)) =
   upto_fetch (fst (getCompPkgDeps w cks compid appid d2))"
proof (cases "requests_get w [] (validateuser_url w @ ''/msapi/validateuser'') cks = Inr (Some 200)")
  case True
  let ?s0 = "\<lparr>trace = [RequestsGet (validateuser_url w @ ''/msapi/validateuser'') cks (Inr (Some 200))],
                valid_url = Map.empty, response_data = []\<rparr>"
  have "fst (getCompPkgDeps w cks compid appid d) =
      trace (fst (retry_loop w compid appid d 1 ?s0))" for d
    using True by (simp add: getCompPkgDeps_def split: prod.splits option.splits)
  then show ?thesis
    using retry_loop_upto_fetch [of w compid appid d1 1 ?s0 d2] by simp
next
  case False
  then have "getCompPkgDeps w cks compid appid d1 = getCompPkgDeps w cks compid appid d2"
    by (simp add: getCompPkgDeps_def Let_def split: sum.splits option.splits)
  then show ?thesis by simp
qed

subsection \<open>The classes of the retry, and the query of the first pass\<close>

lemma is_conn_error_classes:
  "is_conn_error ex \<longleftrightarrow> (\<exists>m. ex = InterfaceError m \<or> ex = OperationalError m)"
  by (cases ex) auto

lemma db_attempt_runs_query:
  assumes "engine_connect w (trace s) = None"
  shows "CursorExecute (query_sql compid appid) (query_params compid appid)
           (cursor_execute w (trace s @ [EngineConnect None]) (query_sql compid appid)
              (query_params compid appid))
         \<in> set (trace (fst (db_attempt w compid appid deptype s)))"
proof (cases "cursor_execute w (trace s @ [EngineConnect None]) (query_sql compid appid)
              (query_params compid appid)")
  case (Inl ex)
  with assms show ?thesis by (simp add: db_attempt_execute_fail)
next
  case (Inr rows)
  with assms show ?thesis
    using for_rows_trace_mono [of "s\<lparr>trace := trace s @ [EngineConnect None,
            CursorExecute (query_sql compid appid) (query_params compid appid) (Inr rows)],
          valid_url := Map.empty\<rparr>" w deptype rows]
    by (auto simp: db_attempt_rows)
qed

lemma getCompPkgDeps_runs_query:
  assumes "requests_get w [] (validateuser_url w @ ''/msapi/validateuser'') cks = Inr (Some 200)"
    and "engine_connect w [RequestsGet (validateuser_url w @ ''/msapi/validateuser'') cks (Inr (Some 200))]
           = None"
  shows "CursorExecute (query_sql compid appid) (query_params compid appid)
           (cursor_execute w
              [RequestsGet (validateuser_url w @ ''/msapi/validateuser'') cks (Inr (Some 200)),
               EngineConnect None]
              (query_sql compid appid) (query_params compid appid))
         \<in> set (fst (getCompPkgDeps w cks compid appid deptype))"
proof -
  let ?s0 = "\<lparr>trace = [RequestsGet (validateuser_url w @ ''/msapi/validateuser'') cks (Inr (Some 200))],
                valid_url = Map.empty, response_data = []\<rparr>"
  have "fst (getCompPkgDeps w cks compid appid deptype) =
      trace (fst (retry_loop w compid appid deptype 1 ?s0))"
    using assms(1) by (simp add: getCompPkgDeps_def split: prod.splits option.splits)
  moreover have "CursorExecute (query_sql compid appid) (query_params compid appid)
           (cursor_execute w (trace ?s0 @ [EngineConnect None]) (query_sql compid appid)
              (query_params compid appid))
         \<in> set (trace (fst (db_attempt w compid appid deptype ?s0)))"
    by (rule db_attempt_runs_query) (simp add: assms(2))
  ultimately show ?thesis
    using retry_loop_keeps_first_attempt [of w compid appid deptype ?s0 1] by auto
qed

subsection \<open>The vulnerability lookups of every pass\<close>

lemma keyed_mono: "keyed rows e \<Longrightarrow> set rows \<subseteq> set rows' \<Longrightarrow> keyed rows' e"
  by (cases e) (auto simp: keyed_def list_ex_iff)

lemma lookup_of_mono: "lookup_of rows e \<Longrightarrow> set rows \<subseteq> set rows' \<Longrightarrow> lookup_of rows' e"
  by (cases e) (auto simp: lookup_of_def list_ex_iff)

lemma lookup_of_keyed: "lookup_of rows e \<Longrightarrow> keyed rows e"
  by (cases e) (auto simp: lookup_of_def keyed_def)

lemma lookup_of_no_fetch: "list_all (lookup_of rows) evs \<Longrightarrow> fetched_rows evs = []"
  by (induction evs rule: fetched_rows.induct) (auto simp: lookup_of_def)

lemma keyed_lookups_extend:
  assumes "keyed_lookups tr" and "list_all (keyed (fetched_rows (tr @ evs))) evs"
  shows "keyed_lookups (tr @ evs)"
proof -
  have "keyed (fetched_rows (tr @ evs)) e" if "e \<in> set tr" for e
  proof (rule keyed_mono)
    show "keyed (fetched_rows tr) e"
      using assms(1) that by (simp add: keyed_lookups_def list_all_iff)
    show "set (fetched_rows tr) \<subseteq> set (fetched_rows (tr @ evs))"
      by (simp add: fetched_rows_append)
  qed
  with assms(2) show ?thesis
    by (auto simp: keyed_lookups_def list_all_iff)
qed

lemma row_body_lookup_of:
  "\<exists>evs. trace (fst (row_body w deptype row s)) = trace s @ evs \<and> list_all (lookup_of [row]) evs"
  by (auto simp: row_body_def Let_def lookup_of_def vuln_query_spec [symmetric]
      split: sum.splits option.splits)

lemma for_rows_lookup_of:
  "\<exists>evs. trace (fst (for_rows w deptype rows s)) = trace s @ evs \<and> list_all (lookup_of rows) evs"
proof (induction rows arbitrary: s)
  case Nil
  show ?case by simp
next
  case (Cons row rows)
  obtain s1 r where rb: "row_body w deptype row s = (s1, r)"
    by (cases "row_body w deptype row s")
  with row_body_lookup_of [of w deptype row s]
  obtain evs1 where e1: "trace s1 = trace s @ evs1" "list_all (lookup_of [row]) evs1"
    by auto
  from e1(2) have e1': "list_all (lookup_of (row # rows)) evs1"
    by (auto simp: list_all_iff intro: lookup_of_mono)
  show ?case
  proof (cases r)
    case None
    from Cons.IH [of s1] obtain evs2 where e2:
      "trace (fst (for_rows w deptype rows s1)) = trace s1 @ evs2" "list_all (lookup_of rows) evs2"
      by blast
    from e2(2) have "list_all (lookup_of (row # rows)) evs2"
      by (auto simp: list_all_iff intro: lookup_of_mono)
    with e1 e1' e2(1) rb None show ?thesis by auto
  next
    case (Some ex)
    with e1 e1' rb show ?thesis by auto
  qed
qed

lemma db_attempt_keyed_lookups:
  assumes "keyed_lookups (trace s)"
  shows "keyed_lookups (trace (fst (db_attempt w compid appid deptype s)))"
proof (cases rule: db_attempt_cases [where w = w and s = s and compid = compid and appid = appid])
  case (connect_fail ex)
  have "keyed_lookups (trace s @ [EngineConnect (Some ex)])"
    by (rule keyed_lookups_extend [OF assms]) (simp add: keyed_def)
  with connect_fail show ?thesis
    by (simp add: db_attempt_connect_fail)
next
  case (execute_fail ex)
  have "keyed_lookups (trace s @ [EngineConnect None,
      CursorExecute (query_sql compid appid) (query_params compid appid) (Inl ex)])"
    by (rule keyed_lookups_extend [OF assms]) (simp add: keyed_def)
  with execute_fail show ?thesis
    by (simp add: db_attempt_execute_fail)
next
  case (rows rows)
  let ?s1 = "s\<lparr>trace := trace s @ [EngineConnect None,
            CursorExecute (query_sql compid appid) (query_params compid appid) (Inr rows)],
          valid_url := Map.empty\<rparr>"
  let ?new = "\<lambda>evs. EngineConnect None #
      CursorExecute (query_sql compid appid) (query_params compid appid) (Inr rows) # evs"
  from for_rows_lookup_of [of w deptype rows ?s1] obtain evs where
    evs: "trace (fst (for_rows w deptype rows ?s1)) = trace ?s1 @ evs" "list_all (lookup_of rows) evs"
    by blast
  have sub: "set rows \<subseteq> set (fetched_rows (trace s @ ?new evs))"
    by (auto simp: fetched_rows_append)
  have "keyed (fetched_rows (trace s @ ?new evs)) e" if "e \<in> set evs" for e
    using evs(2) that lookup_of_keyed [of rows e] keyed_mono [OF _ sub, of e]
    by (auto simp: list_all_iff)
  then have "list_all (keyed (fetched_rows (trace s @ ?new evs))) (?new evs)"
    by (simp add: list_all_iff keyed_def)
  then have "keyed_lookups (trace s @ ?new evs)"
    by (rule keyed_lookups_extend [OF assms])
  with rows evs(1) show ?thesis
    by (simp add: db_attempt_rows)
qed

lemma retry_loop_keyed_lookups:
  assumes "keyed_lookups (trace s)"
  shows "keyed_lookups (trace (fst (retry_loop w compid appid deptype n s)))"
proof (rule retry_loop_rule [where I = "\<lambda>s. keyed_lookups (trace s)"
      and Q = "\<lambda>s' r. keyed_lookups (trace s')"])
  show "keyed_lookups (trace s)" by (rule assms)
next
  fix s s' ex
  assume "keyed_lookups (trace s)" and "db_attempt w compid appid deptype s = (s', Some ex)"
  then have "keyed_lookups (trace s')"
    using db_attempt_keyed_lookups [of s w compid appid deptype] by simp
  then have "keyed_lookups (trace s' @ [Sleep 200])"
    by (rule keyed_lookups_extend) (simp add: keyed_def)
  then show "keyed_lookups (trace (s'\<lparr>trace := trace s' @ [Sleep 200]\<rparr>))"
    by simp
next
  fix s s' r
  assume "keyed_lookups (trace s)" and "db_attempt w compid appid deptype s = (s', r)"
  then show "keyed_lookups (trace s')"
    using db_attempt_keyed_lookups [of s w compid appid deptype] by simp
qed

lemma lookups_keyed_by_fetched_rows:
  "keyed_lookups (fst (getCompPkgDeps w cks compid appid deptype))"
proof -
  let ?s0 = "\<lparr>trace = [RequestsGet (validateuser_url w @ ''/msapi/validateuser'') cks (Inr (Some 200))],
                valid_url = Map.empty, response_data = []\<rparr>"
  have "keyed_lookups (trace (fst (retry_loop w compid appid deptype 1 ?s0)))"
    by (rule retry_loop_keyed_lookups) (simp add: keyed_lookups_def keyed_def)
  then show ?thesis
    by (auto simp: getCompPkgDeps_def Let_def keyed_lookups_def keyed_def
        split: sum.splits option.splits prod.splits)
qed


text \<open>
  A request outside the license branch that returns 200: the trace ends with the pass that
  succeeded, which makes one lookup per fetched row, and the data ends with one entry per
  record these lookups returned. What precedes these entries was left by earlier passes.
\<close>

lemma cve_success_lookups_and_entries:
  assumes "deptype \<noteq> ''license''"
    and "getCompPkgDeps w cks compid appid deptype = (tr, Data data)"
  shows "(\<exists>tr0 data0 rows vss.
       length vss = length rows \<and>
       tr = tr0 @ EngineConnect None #
         CursorExecute (query_sql compid appid) (query_params compid appid) (Inr rows) #
         map2 (\<lambda>row v_rows. VCursorExecute (fst (spec_vuln_lookup row))
                 (snd (spec_vuln_lookup row)) (Inr v_rows)) rows vss \<and>
       data = data0 @ concat (map2 (\<lambda>row v_rows. map (\<lambda>v.
           \<lparr>packagename = r_packagename row, packageversion = r_packageversion row,
            name = v_id v, url = ''https://osv.dev/vulnerability/'' @ v_id v,
            summary = v_summary v, fullcompname = r_fullcompname row,
            risklevel = Some (v_risklevel v)\<rparr>) v_rows) rows vss) \<and>
       (data0 \<noteq> [] \<longrightarrow> list_ex is_lookup tr0))"
proof -
  let ?s0 = "\<lparr>trace = [RequestsGet (validateuser_url w @ ''/msapi/validateuser'') cks (Inr (Some 200))],
                valid_url = Map.empty, response_data = []\<rparr>"
  from assms(2) obtain s' where loop: "retry_loop w compid appid deptype 1 ?s0 = (s', None)"
    and res: "tr = trace s'" "data = response_data s'"
    by (auto simp: getCompPkgDeps_def Let_def split: sum.splits option.splits if_splits prod.splits)
  have "response_data ?s0 = []" by simp
  from retry_loop_cve_data [OF assms(1) this loop] show ?thesis
    unfolding res lookup_event_def vuln_entry_def osv_url_def .
qed

section \<open>The claims\<close>

text \<open>
  C1 fails as stated. The rows for \<open>jinja2\<close> and \<open>click\<close> carry the same license name
  and different URLs, and every \<open>HEAD\<close> returns 200. The entry returned for \<open>click\<close>
  carries the URL of the \<open>jinja2\<close> row, which is neither the URL of its own row nor the
  SPDX landing page; no \<open>HEAD\<close> call was made on the URL of the \<open>click\<close> row.
\<close>

theorem license_url_not_own_counterexample:
  "getCompPkgDeps two_url_world [] (Some 42) None ''license'' =
     ([RequestsGet ''http://localhost:80/msapi/validateuser'' [] (Inr (Some 200)),
       EngineConnect None,
       CursorExecute comp_sql [PInt 42, PStr ''license''] (Inr [jinja_row, click_row]),
       RequestsHead ''https://opensource.org/licenses/BSD-3-Clause'' (Inr 200)],
      Data [license_entry jinja_row ''https://opensource.org/licenses/BSD-3-Clause'',
            license_entry click_row ''https://opensource.org/licenses/BSD-3-Clause'']) \<and>
   url (license_entry click_row ''https://opensource.org/licenses/BSD-3-Clause'')
     \<noteq> default_url (r_url click_row) \<and>
   url (license_entry click_row ''https://opensource.org/licenses/BSD-3-Clause'') \<noteq> spdx_url"
  by (simp add: handler_eval two_url_world_def demo_world_def jinja_row_def click_row_def
      license_entry_def spdx_url_def)

text \<open>
  C1 as amended. In a request with \<open>deptype=license\<close> that returns 200, the data list has
  one entry per fetched row, in order, with the columns of that row. The URL of each entry is
  not empty and is either the SPDX landing page or the URL (defaulted to the SPDX base URL
  when empty or missing) of the first fetched row with the same license name, on which a
  \<open>HEAD\<close> call returned 200. For the first row of a license name that is its own URL.
\<close>

theorem license_url_is_memoised_or_spdx:
  assumes "getCompPkgDeps w cks compid appid ''license'' = (tr, Data data)"
  shows "\<exists>rows. CursorExecute (query_sql compid appid) (query_params compid appid) (Inr rows) \<in> set tr \<and>
           list_all2
             (\<lambda>r e. e = license_entry r (url e) \<and> url e \<noteq> [] \<and>
                (url e = spdx_url \<or>
                 (\<exists>f. find (\<lambda>r'. r_name r' = r_name r) rows = Some f \<and>
                      url e = default_url (r_url f) \<and>
                      RequestsHead (default_url (r_url f)) (Inr 200) \<in> set tr)))
             rows data"
proof -
  let ?s0 = "\<lparr>trace = [RequestsGet (validateuser_url w @ ''/msapi/validateuser'') cks (Inr (Some 200))],
                valid_url = Map.empty, response_data = []\<rparr>"
  from assms obtain s' where loop: "retry_loop w compid appid ''license'' 1 ?s0 = (s', None)"
    and res: "tr = trace s'" "data = response_data s'"
    by (auto simp: getCompPkgDeps_def Let_def split: sum.splits option.splits if_splits prod.splits)
  have "response_data ?s0 = []" by simp
  from retry_loop_license_data [OF this loop] obtain rows where
    rows: "CursorExecute (query_sql compid appid) (query_params compid appid) (Inr rows) \<in> set tr"
    and ok: "list_all2 (\<lambda>r e. e = license_entry r (url e) \<and>
                        url_ok tr rows (r_name r) (url e)) rows data"
    unfolding res by blast
  from ok have "list_all2
             (\<lambda>r e. e = license_entry r (url e) \<and> url e \<noteq> [] \<and>
                (url e = spdx_url \<or>
                 (\<exists>f. find (\<lambda>r'. r_name r' = r_name r) rows = Some f \<and>
                      url e = default_url (r_url f) \<and>
                      RequestsHead (default_url (r_url f)) (Inr 200) \<in> set tr)))
             rows data"
    by (rule list_all2_mono) (auto simp: url_ok_def split: option.splits)
  with rows show ?thesis by blast
qed


theorem license_url_is_memoised_or_spdx_witness:
  "getCompPkgDeps two_url_world [] (Some 42) None ''license'' =
     ([RequestsGet ''http://localhost:80/msapi/validateuser'' [] (Inr (Some 200)),
       EngineConnect None,
       CursorExecute comp_sql [PInt 42, PStr ''license''] (Inr [jinja_row, click_row]),
       RequestsHead ''https://opensource.org/licenses/BSD-3-Clause'' (Inr 200)],
      Data [license_entry jinja_row ''https://opensource.org/licenses/BSD-3-Clause'',
            license_entry click_row ''https://opensource.org/licenses/BSD-3-Clause'']) \<and>
   (\<exists>rows. CursorExecute (query_sql (Some 42) None) (query_params (Some 42) None) (Inr rows)
        \<in> set [RequestsGet ''http://localhost:80/msapi/validateuser'' [] (Inr (Some 200)),
              EngineConnect None,
              CursorExecute comp_sql [PInt 42, PStr ''license''] (Inr [jinja_row, click_row]),
              RequestsHead ''https://opensource.org/licenses/BSD-3-Clause'' (Inr 200)] \<and>
      length rows = 2)"
proof -
  have run: "getCompPkgDeps two_url_world [] (Some 42) None ''license'' =
     ([RequestsGet ''http://localhost:80/msapi/validateuser'' [] (Inr (Some 200)),
       EngineConnect None,
       CursorExecute comp_sql [PInt 42, PStr ''license''] (Inr [jinja_row, click_row]),
       RequestsHead ''https://opensource.org/licenses/BSD-3-Clause'' (Inr 200)],
      Data [license_entry jinja_row ''https://opensource.org/licenses/BSD-3-Clause'',
            license_entry click_row ''https://opensource.org/licenses/BSD-3-Clause''])"
    by (simp add: handler_eval two_url_world_def demo_world_def jinja_row_def click_row_def
        license_entry_def)
  from license_url_is_memoised_or_spdx [OF run] obtain rows where
    "CursorExecute (query_sql (Some 42) None) (query_params (Some 42) None) (Inr rows)
        \<in> set [RequestsGet ''http://localhost:80/msapi/validateuser'' [] (Inr (Some 200)),
              EngineConnect None,
              CursorExecute comp_sql [PInt 42, PStr ''license''] (Inr [jinja_row, click_row]),
              RequestsHead ''https://opensource.org/licenses/BSD-3-Clause'' (Inr 200)]"
    and "length rows = length [license_entry jinja_row ''https://opensource.org/licenses/BSD-3-Clause'',
            license_entry click_row ''https://opensource.org/licenses/BSD-3-Clause'']"
    by (auto dest: list_all2_lengthD)
  with run show ?thesis
    by (intro conjI exI [of _ rows]) simp_all
qed

text \<open>
  C2. After a successful authorization the handler makes at most three passes through the
  database sequence (connect, query, loop over the rows). A pass that ends without an
  exception yields 200 with the collected data. A pass that ends with an exception that is
  neither an \<open>InterfaceError\<close> nor an \<open>OperationalError\<close> yields 500 with the string
  of that exception at once, with no sleep and no further pass. A pass that ends with an
  \<open>InterfaceError\<close> or an \<open>OperationalError\<close> is followed by a sleep of 200
  milliseconds and the next pass, except for the third, whose exception yields 500 with its
  string.
\<close>

theorem retry_three_attempts:
  assumes "requests_get w [] (validateuser_url w @ ''/msapi/validateuser'') cks = Inr (Some 200)"
  shows
    "(let s0 = \<lparr>trace = [RequestsGet (validateuser_url w @ ''/msapi/validateuser'') cks (Inr (Some 200))],
                valid_url = Map.empty, response_data = []\<rparr>;
          a1 = db_attempt w compid appid deptype s0;
          a2 = db_attempt w compid appid deptype (fst a1\<lparr>trace := trace (fst a1) @ [Sleep 200]\<rparr>);
          a3 = db_attempt w compid appid deptype (fst a2\<lparr>trace := trace (fst a2) @ [Sleep 200]\<rparr>)
      in getCompPkgDeps w cks compid appid deptype =
         (case snd a1 of
            None \<Rightarrow> (trace (fst a1), Data (response_data (fst a1)))
          | Some e1 \<Rightarrow>
              if \<exists>m. e1 = InterfaceError m \<or> e1 = OperationalError m then
                (case snd a2 of
                   None \<Rightarrow> (trace (fst a2), Data (response_data (fst a2)))
                 | Some e2 \<Rightarrow>
                     if \<exists>m. e2 = InterfaceError m \<or> e2 = OperationalError m then
                       (case snd a3 of
                          None \<Rightarrow> (trace (fst a3), Data (response_data (fst a3)))
                        | Some e3 \<Rightarrow> (trace (fst a3), HTTPException 500 (exn_str e3)))
                     else (trace (fst a2), HTTPException 500 (exn_str e2)))
              else (trace (fst a1), HTTPException 500 (exn_str e1))))"
proof -
  have L3: "retry_loop w compid appid deptype (Suc (Suc (Suc 0))) s =
      db_attempt w compid appid deptype s" for s
    by (subst retry_loop_step) (simp split: prod.splits option.splits)
  have L2: "retry_loop w compid appid deptype (Suc (Suc 0)) s =
      (case db_attempt w compid appid deptype s of
         (s', None) \<Rightarrow> (s', None)
       | (s', Some ex) \<Rightarrow>
           if is_conn_error ex
           then db_attempt w compid appid deptype (s'\<lparr>trace := trace s' @ [Sleep 200]\<rparr>)
           else (s', Some ex))" for s
    by (subst retry_loop_step) (simp add: L3 split: prod.splits option.splits)
  have L1: "retry_loop w compid appid deptype (Suc 0) s =
      (case db_attempt w compid appid deptype s of
         (s', None) \<Rightarrow> (s', None)
       | (s', Some ex) \<Rightarrow>
           if is_conn_error ex
           then retry_loop w compid appid deptype (Suc (Suc 0)) (s'\<lparr>trace := trace s' @ [Sleep 200]\<rparr>)
           else (s', Some ex))" for s
    by (subst retry_loop_step) (simp split: prod.splits option.splits)
  let ?s0 = "\<lparr>trace = [RequestsGet (validateuser_url w @ ''/msapi/validateuser'') cks (Inr (Some 200))],
                valid_url = Map.empty, response_data = []\<rparr>"
  obtain s1 r1 where a1: "db_attempt w compid appid deptype ?s0 = (s1, r1)"
    by (cases "db_attempt w compid appid deptype ?s0")
  obtain s2 r2 where a2:
    "db_attempt w compid appid deptype (s1\<lparr>trace := trace s1 @ [Sleep 200]\<rparr>) = (s2, r2)"
    by (cases "db_attempt w compid appid deptype (s1\<lparr>trace := trace s1 @ [Sleep 200]\<rparr>)")
  obtain s3 r3 where a3:
    "db_attempt w compid appid deptype (s2\<lparr>trace := trace s2 @ [Sleep 200]\<rparr>) = (s3, r3)"
    by (cases "db_attempt w compid appid deptype (s2\<lparr>trace := trace s2 @ [Sleep 200]\<rparr>)")
  have handler: "getCompPkgDeps w cks compid appid deptype =
      (case retry_loop w compid appid deptype (Suc 0) ?s0 of
         (s, None) \<Rightarrow> (trace s, Data (response_data s))
       | (s, Some err) \<Rightarrow> (trace s, HTTPException 500 (exn_str err)))"
    using assms by (simp add: getCompPkgDeps_def)
  show ?thesis
    by (simp add: Let_def handler L1 L2 a1 a2 a3 is_conn_error_classes [symmetric]
        split: option.splits)
qed

theorem retry_three_attempts_witness:
  "requests_get flaky_world [] (validateuser_url flaky_world @ ''/msapi/validateuser'') [] = Inr (Some 200) \<and>
   getCompPkgDeps flaky_world [] (Some 42) None ''license'' =
     ([RequestsGet ''http://localhost:80/msapi/validateuser'' [] (Inr (Some 200)),
       EngineConnect (Some (OperationalError ''connection refused'')), Sleep 200,
       EngineConnect (Some (OperationalError ''connection refused'')), Sleep 200,
       EngineConnect None,
       CursorExecute comp_sql [PInt 42, PStr ''license''] (Inr [flask_row]),
       RequestsHead ''https://spdx.org/licenses/'' (Inr 200)],
      Data [license_entry flask_row ''https://spdx.org/licenses/'']) \<and>
   requests_get down_world [] (validateuser_url down_world @ ''/msapi/validateuser'') [] = Inr (Some 200) \<and>
   getCompPkgDeps down_world [] (Some 42) None ''license'' =
     ([RequestsGet ''http://localhost:80/msapi/validateuser'' [] (Inr (Some 200)),
       EngineConnect (Some (InterfaceError ''connection already closed'')), Sleep 200,
       EngineConnect (Some (InterfaceError ''connection already closed'')), Sleep 200,
       EngineConnect (Some (InterfaceError ''connection already closed''))],
      HTTPException 500 ''connection already closed'') \<and>
   requests_get bad_sql_world [] (validateuser_url bad_sql_world @ ''/msapi/validateuser'') []
     = Inr (Some 200) \<and>
   getCompPkgDeps bad_sql_world [] (Some 42) None ''license'' =
     ([RequestsGet ''http://localhost:80/msapi/validateuser'' [] (Inr (Some 200)),
       EngineConnect None,
       CursorExecute comp_sql [PInt 42, PStr ''license'']
         (Inl (OtherException ''relation does not exist''))],
      HTTPException 500 ''relation does not exist'')"
  using retry_three_attempts [of flaky_world "[]" "Some 42" None "''license''"]
    retry_three_attempts [of down_world "[]" "Some 42" None "''license''"]
    retry_three_attempts [of bad_sql_world "[]" "Some 42" None "''license''"]
  by (simp add: db_attempt_def row_body_def Let_def default_url_def
      query_sql_def query_params_def query_id_def id_param_def
      flaky_world_def down_world_def bad_sql_world_def demo_world_def flask_row_def spdx_url_def)


text \<open>
  C4. Whenever the call of the validation service does not return a response with status 200
  (it raises, returns no response, or returns another status), the handler answers 401 with
  a detail that starts with \<open>Authorization Failed:\<close> and goes on with the string of the
  exception that describes the cause. The trace holds the validation call and nothing else:
  no connection is opened and no statement is executed. This holds for every \<open>compid\<close>,
  \<open>appid\<close> and \<open>deptype\<close>.
\<close>

theorem auth_failure_401_no_db:
  assumes "requests_get w [] (validateuser_url w @ ''/msapi/validateuser'') cks \<noteq> Inr (Some 200)"
  shows "getCompPkgDeps w cks compid appid deptype =
           ([RequestsGet (validateuser_url w @ ''/msapi/validateuser'') cks
               (requests_get w [] (validateuser_url w @ ''/msapi/validateuser'') cks)],
            HTTPException 401
              (''Authorization Failed:'' @
               (case requests_get w [] (validateuser_url w @ ''/msapi/validateuser'') cks of
                  Inl err \<Rightarrow> exn_str err
                | Inr None \<Rightarrow> http_exception_str w 401 ''Authorization Failed''
                | Inr (Some code) \<Rightarrow>
                    http_exception_str w 401 (''Authorization Failed status_code='' @ str_int code))))"
  using assms
  by (simp add: getCompPkgDeps_def Let_def split: sum.splits option.splits)

theorem auth_failure_401_no_db_witness:
  "requests_get forbidden_world [] (validateuser_url forbidden_world @ ''/msapi/validateuser'') []
     \<noteq> Inr (Some 200) \<and>
   getCompPkgDeps forbidden_world [] (Some 42) None ''license'' =
     ([RequestsGet ''http://localhost:80/msapi/validateuser'' [] (Inr (Some 403))],
      HTTPException 401 ''Authorization Failed:401: Authorization Failed status_code=403'')"
  using auth_failure_401_no_db [of forbidden_world "[]" "Some 42" None "''license''"]
  by (simp add: forbidden_world_def demo_world_def str_int_403 str_int_401)

text \<open>
  C5. Whatever \<open>deptype\<close> the request carries, every dependency query the handler
  executes runs the statement selected by \<open>compid\<close> and \<open>appid\<close> alone, with the
  parameter tuple made of the id and the literal \<open>license\<close>. The requested
  \<open>deptype\<close> has no effect before the first dependency query is answered: up to and
  including that query, the calls and their answers are those of the same request with
  \<open>deptype=license\<close>.
\<close>

theorem dep_query_filter_is_license:
  "(\<forall>sql ps res. CursorExecute sql ps res \<in> set (fst (getCompPkgDeps w cks compid appid deptype)) \<longrightarrow>
      sql = query_sql compid appid \<and>
      ps = [id_param (query_id compid appid), PStr ''license'']) \<and>
   upto_fetch (fst (getCompPkgDeps w cks compid appid deptype)) =
   upto_fetch (fst (getCompPkgDeps w cks compid appid ''license''))"
proof -
  have "\<forall>sql ps res. CursorExecute sql ps res \<in> set (fst (getCompPkgDeps w cks compid appid deptype)) \<longrightarrow>
      sql = query_sql compid appid \<and>
      ps = [id_param (query_id compid appid), PStr ''license'']"
    using getCompPkgDeps_dep_query [of compid appid w cks deptype]
    by (auto simp: list_all_iff dep_query_event_def query_params_def)
  then show ?thesis
    using getCompPkgDeps_upto_fetch [of w cks compid appid deptype "''license''"] by blast
qed

theorem dep_query_filter_is_license_witness:
  "CursorExecute comp_sql [PInt 42, PStr ''license''] (Inr [flask_row])
     \<in> set (fst (getCompPkgDeps demo_world [] (Some 42) None ''cve'')) \<and>
   comp_sql = query_sql (Some 42) None \<and>
   [PInt 42, PStr ''license''] = [id_param (query_id (Some 42) None), PStr ''license''] \<and>
   upto_fetch (fst (getCompPkgDeps demo_world [] (Some 42) None ''cve'')) =
     [RequestsGet ''http://localhost:80/msapi/validateuser'' [] (Inr (Some 200)),
      EngineConnect None,
      CursorExecute comp_sql [PInt 42, PStr ''license''] (Inr [flask_row])]"
proof -
  have run: "fst (getCompPkgDeps demo_world [] (Some 42) None ''cve'') =
     [RequestsGet ''http://localhost:80/msapi/validateuser'' [] (Inr (Some 200)),
      EngineConnect None,
      CursorExecute comp_sql [PInt 42, PStr ''license''] (Inr [flask_row]),
      VCursorExecute vulns_by_purl_sql [PStr ''pkg:pypi/flask@1.2.2''] (Inr [osv_row])]"
    by (simp add: handler_eval demo_world_def flask_row_def)
  have mem: "CursorExecute comp_sql [PInt 42, PStr ''license''] (Inr [flask_row])
      \<in> set (fst (getCompPkgDeps demo_world [] (Some 42) None ''cve''))"
    unfolding run by simp
  have upto: "upto_fetch (fst (getCompPkgDeps demo_world [] (Some 42) None ''cve'')) =
     [RequestsGet ''http://localhost:80/msapi/validateuser'' [] (Inr (Some 200)),
      EngineConnect None,
      CursorExecute comp_sql [PInt 42, PStr ''license''] (Inr [flask_row])]"
    unfolding run by simp
  from dep_query_filter_is_license [of demo_world "[]" "Some 42" None "''cve''"] mem
  have "comp_sql = query_sql (Some 42) None \<and>
      [PInt 42, PStr ''license''] = [id_param (query_id (Some 42) None), PStr ''license'']"
    by blast
  with mem upto show ?thesis by blast
qed

text \<open>
  C6. In a request with \<open>deptype=license\<close> every \<open>HEAD\<close> call can be charged to a
  fetched row, on whose defaulted URL it is made, in such a way that the charged rows have
  pairwise different license names. So no license name causes two calls, and the number of
  calls is at most the number of distinct license names among the fetched rows, however many
  rows share a name.
\<close>

theorem one_head_per_license_name:
  "(\<exists>rows'. head_urls (fst (getCompPkgDeps w cks compid appid ''license'')) =
             map (\<lambda>r. default_url (r_url r)) rows' \<and>
           distinct (map r_name rows') \<and>
           set rows' \<subseteq> set (fetched_rows (fst (getCompPkgDeps w cks compid appid ''license'')))) \<and>
   length (head_urls (fst (getCompPkgDeps w cks compid appid ''license'')))
     \<le> card (set (map r_name (fetched_rows (fst (getCompPkgDeps w cks compid appid ''license'')))))"
proof -
  let ?tr = "fst (getCompPkgDeps w cks compid appid ''license'')"
  let ?s0 = "\<lparr>trace = [RequestsGet (validateuser_url w @ ''/msapi/validateuser'') cks (Inr (Some 200))],
                valid_url = Map.empty, response_data = []\<rparr>"
  have ex: "\<exists>rows'. head_urls ?tr = map (\<lambda>r. default_url (r_url r)) rows' \<and>
           distinct (map r_name rows') \<and> set rows' \<subseteq> set (fetched_rows ?tr)"
  proof (cases "requests_get w [] (validateuser_url w @ ''/msapi/validateuser'') cks = Inr (Some 200)")
    case True
    have "head_urls (trace ?s0) = []" by simp
    from retry_loop_license_heads [OF this, of w compid appid 1] True
    show ?thesis
      by (auto simp: getCompPkgDeps_def split: prod.splits option.splits)
  next
    case False
    then have "head_urls ?tr = []"
      by (auto simp: getCompPkgDeps_def Let_def split: sum.splits option.splits)
    then show ?thesis
      by (intro exI [of _ "[]"]) simp
  qed
  then obtain rows' where r: "head_urls ?tr = map (\<lambda>r. default_url (r_url r)) rows'"
    "distinct (map r_name rows')" "set rows' \<subseteq> set (fetched_rows ?tr)"
    by blast
  have "length (head_urls ?tr) = card (set (map r_name rows'))"
    using r(1) distinct_card [OF r(2)] by simp
  also have "\<dots> \<le> card (set (map r_name (fetched_rows ?tr)))"
    using r(3) by (intro card_mono) auto
  finally show ?thesis
    using ex by blast
qed


theorem one_head_per_license_name_witness:
  "head_urls (fst (getCompPkgDeps two_url_world [] (Some 42) None ''license'')) =
     [''https://opensource.org/licenses/BSD-3-Clause''] \<and>
   map r_name (fetched_rows (fst (getCompPkgDeps two_url_world [] (Some 42) None ''license''))) =
     [''BSD-3-Clause'', ''BSD-3-Clause''] \<and>
   length (head_urls (fst (getCompPkgDeps two_url_world [] (Some 42) None ''license'')))
     \<le> card (set (map r_name
          (fetched_rows (fst (getCompPkgDeps two_url_world [] (Some 42) None ''license'')))))"
proof -
  have run: "fst (getCompPkgDeps two_url_world [] (Some 42) None ''license'') =
      [RequestsGet ''http://localhost:80/msapi/validateuser'' [] (Inr (Some 200)),
       EngineConnect None,
       CursorExecute comp_sql [PInt 42, PStr ''license''] (Inr [jinja_row, click_row]),
       RequestsHead ''https://opensource.org/licenses/BSD-3-Clause'' (Inr 200)]"
    by (simp add: handler_eval two_url_world_def demo_world_def jinja_row_def click_row_def)
  have names: "map r_name (fetched_rows (fst (getCompPkgDeps two_url_world [] (Some 42) None ''license'')))
      = [''BSD-3-Clause'', ''BSD-3-Clause'']"
    unfolding run by (simp add: jinja_row_def click_row_def)
  have heads: "head_urls (fst (getCompPkgDeps two_url_world [] (Some 42) None ''license'')) =
     [''https://opensource.org/licenses/BSD-3-Clause'']"
    unfolding run by simp
  from one_head_per_license_name [of two_url_world "[]" "Some 42" None] names heads
  show ?thesis by blast
qed

text \<open>
  C7. The value \<open>licensed\<close> is neither \<open>license\<close> nor \<open>cve\<close>; the constraint
  on \<open>deptype\<close> accepts it all the same, since the pattern has no end anchor, and the
  handler runs and answers 200 with the vulnerability branch.
\<close>

theorem deptype_licensed_is_accepted:
  "re_match deptype_regex ''licensed'' \<and>
   deppkg_endpoint demo_world
     \<lparr>req_cookies = [], req_compid = Some 42, req_appid = None, req_deptype = Some ''licensed''\<rparr> =
     ([RequestsGet ''http://localhost:80/msapi/validateuser'' [] (Inr (Some 200)),
       EngineConnect None,
       CursorExecute comp_sql [PInt 42, PStr ''license''] (Inr [flask_row]),
       VCursorExecute vulns_by_purl_sql [PStr ''pkg:pypi/flask@1.2.2''] (Inr [osv_row])],
      Data [vuln_entry flask_row osv_row]) \<and>
   status_code (snd (deppkg_endpoint demo_world
     \<lparr>req_cookies = [], req_compid = Some 42, req_appid = None, req_deptype = Some ''licensed''\<rparr>))
     = 200"
  by (simp add: deppkg_endpoint_def re_match_def deptype_regex_def handler_eval demo_world_def
      flask_row_def)

text \<open>
  C8. The health endpoint answers 200 with the body \<open>{status: UP, service_name}\<close> exactly
  when the connection is opened, \<open>SELECT 1\<close> runs without an exception and the row count
  is positive; in every other case it answers 503 with the body \<open>{status: DOWN}\<close>.
\<close>

theorem health_up_iff_probe:
  "snd (health w) =
     (if engine_connect w [] = None \<and>
         (case rowcount_execute w [EngineConnect None] ''SELECT 1'' of
            Inl err \<Rightarrow> False
          | Inr rowcount \<Rightarrow> 0 < rowcount)
      then (200, \<lparr>status = ''UP'', msg_service_name = Some ''ortelius-ms-dep-pkg-r''\<rparr>)
      else (503, \<lparr>status = ''DOWN'', msg_service_name = None\<rparr>))"
  by (simp add: health_def Let_def status_up_def status_down_def service_name_def
      split: option.splits sum.splits)

theorem health_up_iff_probe_witness:
  "snd (health demo_world) =
     (200, \<lparr>status = ''UP'', msg_service_name = Some ''ortelius-ms-dep-pkg-r''\<rparr>) \<and>
   snd (health no_row_world) = (503, \<lparr>status = ''DOWN'', msg_service_name = None\<rparr>)"
  using health_up_iff_probe [of demo_world] health_up_iff_probe [of no_row_world]
  by (simp add: demo_world_def no_row_world_def)

text \<open>
  C9. When both \<open>compid\<close> and \<open>appid\<close> are supplied, every dependency query of the
  handler runs the component-scoped statement with the parameters \<open>(compid, 'license')\<close>,
  and it does run it as soon as the user is valid and the first connection opens. \<open>appid\<close>
  is ignored: the handler and the endpoint make the same calls and return the same response as
  for the request without \<open>appid\<close>.
\<close>

theorem compid_wins_over_appid:
  "(\<forall>sql ps res.
      CursorExecute sql ps res \<in> set (fst (getCompPkgDeps w cks (Some c) (Some a) deptype)) \<longrightarrow>
      sql = comp_sql \<and> ps = [PInt c, PStr ''license'']) \<and>
   (requests_get w [] (validateuser_url w @ ''/msapi/validateuser'') cks = Inr (Some 200) \<and>
    engine_connect w [RequestsGet (validateuser_url w @ ''/msapi/validateuser'') cks (Inr (Some 200))]
      = None \<longrightarrow>
    CursorExecute comp_sql [PInt c, PStr ''license'']
      (cursor_execute w
         [RequestsGet (validateuser_url w @ ''/msapi/validateuser'') cks (Inr (Some 200)),
          EngineConnect None]
         comp_sql [PInt c, PStr ''license''])
      \<in> set (fst (getCompPkgDeps w cks (Some c) (Some a) deptype))) \<and>
   query_sql (Some c) (Some a) = comp_sql \<and>
   query_params (Some c) (Some a) = [PInt c, PStr ''license''] \<and>
   getCompPkgDeps w cks (Some c) (Some a) deptype = getCompPkgDeps w cks (Some c) None deptype \<and>
   deppkg_endpoint w \<lparr>req_cookies = cks, req_compid = Some c, req_appid = Some a, req_deptype = d\<rparr> =
   deppkg_endpoint w \<lparr>req_cookies = cks, req_compid = Some c, req_appid = None, req_deptype = d\<rparr>"
proof -
  have sql: "query_sql (Some c) (Some a) = comp_sql"
    by (simp add: query_sql_def)
  have ps: "query_params (Some c) (Some a) = [PInt c, PStr ''license'']"
    by (simp add: query_params_def query_id_def id_param_def)
  have same: "getCompPkgDeps w cks (Some c) (Some a) t = getCompPkgDeps w cks (Some c) None t" for t
    unfolding getCompPkgDeps_def retry_loop_compid [of w c "Some a"] ..
  have p1: "\<forall>sql ps res.
      CursorExecute sql ps res \<in> set (fst (getCompPkgDeps w cks (Some c) (Some a) deptype)) \<longrightarrow>
      sql = comp_sql \<and> ps = [PInt c, PStr ''license'']"
    using getCompPkgDeps_dep_query [of "Some c" "Some a" w cks deptype]
    by (auto simp: list_all_iff dep_query_event_def sql ps)
  have p2: "requests_get w [] (validateuser_url w @ ''/msapi/validateuser'') cks = Inr (Some 200) \<and>
    engine_connect w [RequestsGet (validateuser_url w @ ''/msapi/validateuser'') cks (Inr (Some 200))]
      = None \<longrightarrow>
    CursorExecute comp_sql [PInt c, PStr ''license'']
      (cursor_execute w
         [RequestsGet (validateuser_url w @ ''/msapi/validateuser'') cks (Inr (Some 200)),
          EngineConnect None]
         comp_sql [PInt c, PStr ''license''])
      \<in> set (fst (getCompPkgDeps w cks (Some c) (Some a) deptype))"
    using getCompPkgDeps_runs_query [of w cks "Some c" "Some a" deptype]
    by (simp add: sql ps)
  have p5: "deppkg_endpoint w \<lparr>req_cookies = cks, req_compid = Some c, req_appid = Some a, req_deptype = d\<rparr> =
   deppkg_endpoint w \<lparr>req_cookies = cks, req_compid = Some c, req_appid = None, req_deptype = d\<rparr>"
    using same by (simp add: deppkg_endpoint_def split: option.splits)
  show ?thesis
    by (rule conjI [OF p1 conjI [OF p2 conjI [OF sql conjI [OF ps conjI [OF same p5]]]]])
qed

theorem compid_wins_over_appid_witness:
  "requests_get demo_world [] (validateuser_url demo_world @ ''/msapi/validateuser'') [] = Inr (Some 200) \<and>
   engine_connect demo_world
     [RequestsGet (validateuser_url demo_world @ ''/msapi/validateuser'') [] (Inr (Some 200))] = None \<and>
   CursorExecute comp_sql [PInt 42, PStr ''license''] (Inr [flask_row])
     \<in> set (fst (getCompPkgDeps demo_world [] (Some 42) (Some 7) ''license'')) \<and>
   getCompPkgDeps demo_world [] (Some 42) (Some 7) ''license'' =
     ([RequestsGet ''http://localhost:80/msapi/validateuser'' [] (Inr (Some 200)),
       EngineConnect None,
       CursorExecute comp_sql [PInt 42, PStr ''license''] (Inr [flask_row]),
       RequestsHead ''https://spdx.org/licenses/'' (Inr 200)],
      Data [license_entry flask_row ''https://spdx.org/licenses/''])"
proof -
  have auth: "requests_get demo_world [] (validateuser_url demo_world @ ''/msapi/validateuser'') []
      = Inr (Some 200)"
    by (simp add: demo_world_def)
  have conn: "engine_connect demo_world
     [RequestsGet (validateuser_url demo_world @ ''/msapi/validateuser'') [] (Inr (Some 200))] = None"
    by (simp add: demo_world_def)
  have without: "getCompPkgDeps demo_world [] (Some 42) None ''license'' =
     ([RequestsGet ''http://localhost:80/msapi/validateuser'' [] (Inr (Some 200)),
       EngineConnect None,
       CursorExecute comp_sql [PInt 42, PStr ''license''] (Inr [flask_row]),
       RequestsHead ''https://spdx.org/licenses/'' (Inr 200)],
      Data [license_entry flask_row ''https://spdx.org/licenses/''])"
    by (simp add: handler_eval demo_world_def flask_row_def license_entry_def spdx_url_def)
  note inst = compid_wins_over_appid [of demo_world "[]" 42 7 "''license''" "Some ''license''"]
  from inst have both: "getCompPkgDeps demo_world [] (Some 42) (Some 7) ''license'' =
      getCompPkgDeps demo_world [] (Some 42) None ''license''"
    by blast
  from inst auth conn have "CursorExecute comp_sql [PInt 42, PStr ''license'']
      (cursor_execute demo_world
         [RequestsGet (validateuser_url demo_world @ ''/msapi/validateuser'') [] (Inr (Some 200)),
          EngineConnect None]
         comp_sql [PInt 42, PStr ''license''])
      \<in> set (fst (getCompPkgDeps demo_world [] (Some 42) (Some 7) ''license''))"
    by blast
  then have mem: "CursorExecute comp_sql [PInt 42, PStr ''license''] (Inr [flask_row])
     \<in> set (fst (getCompPkgDeps demo_world [] (Some 42) (Some 7) ''license''))"
    by (simp add: demo_world_def)
  from auth conn mem both without show ?thesis by simp
qed

text \<open>
  C10. When neither \<open>compid\<close> nor \<open>appid\<close> is supplied and the user is valid, every
  dependency query of the handler runs the empty statement with the parameters
  \<open>(None, 'license')\<close>, and it does run it as soon as the first connection opens. When the
  database raises on an empty statement, the handler answers 500, not 400 or 422, and the
  detail is the string of the exception that the last call of the trace raised: the failed
  connection or the failed execution of the empty statement.
\<close>

theorem no_id_is_500:
  assumes auth: "requests_get w [] (validateuser_url w @ ''/msapi/validateuser'') cks = Inr (Some 200)"
    and reject: "\<forall>h ps. \<exists>ex. cursor_execute w h [] ps = Inl ex"
  shows "status_code (snd (getCompPkgDeps w cks None None deptype)) = 500 \<and>
         (\<exists>ex. snd (getCompPkgDeps w cks None None deptype) = HTTPException 500 (exn_str ex) \<and>
           (last (fst (getCompPkgDeps w cks None None deptype)) = EngineConnect (Some ex) \<or>
            last (fst (getCompPkgDeps w cks None None deptype)) =
              CursorExecute [] [PNone, PStr ''license''] (Inl ex))) \<and>
         (\<forall>sql ps res. CursorExecute sql ps res \<in> set (fst (getCompPkgDeps w cks None None deptype))
           \<longrightarrow> sql = [] \<and> ps = [PNone, PStr ''license'']) \<and>
         (engine_connect w [RequestsGet (validateuser_url w @ ''/msapi/validateuser'') cks (Inr (Some 200))]
           = None \<longrightarrow>
         (\<exists>res. CursorExecute [] [PNone, PStr ''license''] res
            \<in> set (fst (getCompPkgDeps w cks None None deptype))))"
proof -
  let ?s0 = "\<lparr>trace = [RequestsGet (validateuser_url w @ ''/msapi/validateuser'') cks (Inr (Some 200))],
                valid_url = Map.empty, response_data = []\<rparr>"
  let ?loop = "retry_loop w None None deptype 1 ?s0"
  have handler: "getCompPkgDeps w cks None None deptype =
      (case ?loop of
         (s, None) \<Rightarrow> (trace s, Data (response_data s))
       | (s, Some err) \<Rightarrow> (trace s, HTTPException 500 (exn_str err)))"
    using auth by (simp add: getCompPkgDeps_def)
  have "\<exists>ex. snd ?loop = Some ex \<and>
           (last (trace (fst ?loop)) = EngineConnect (Some ex) \<or>
            last (trace (fst ?loop)) = CursorExecute [] [PNone, PStr ''license''] (Inl ex))"
  proof (rule retry_loop_rule [where I = "\<lambda>s. True"
        and Q = "\<lambda>s' r. \<exists>ex. r = Some ex \<and>
           (last (trace s') = EngineConnect (Some ex) \<or>
            last (trace s') = CursorExecute [] [PNone, PStr ''license''] (Inl ex))"])
    fix s s' r
    assume "db_attempt w None None deptype s = (s', r)"
    then show "\<exists>ex. r = Some ex \<and>
           (last (trace s') = EngineConnect (Some ex) \<or>
            last (trace s') = CursorExecute [] [PNone, PStr ''license''] (Inl ex))"
      using db_attempt_empty_sql [OF reject, of deptype s] by simp
  qed simp_all
  then have p1: "\<exists>ex. snd (getCompPkgDeps w cks None None deptype) = HTTPException 500 (exn_str ex) \<and>
           (last (fst (getCompPkgDeps w cks None None deptype)) = EngineConnect (Some ex) \<or>
            last (fst (getCompPkgDeps w cks None None deptype)) =
              CursorExecute [] [PNone, PStr ''license''] (Inl ex))"
    unfolding handler by (cases ?loop) auto
  have p2: "\<forall>sql ps res. CursorExecute sql ps res \<in> set (fst (getCompPkgDeps w cks None None deptype))
           \<longrightarrow> sql = [] \<and> ps = [PNone, PStr ''license'']"
    using getCompPkgDeps_dep_query [of None None w cks deptype]
    by (auto simp: list_all_iff dep_query_event_def query_sql_def query_params_def query_id_def
        id_param_def)
  have p3: "engine_connect w [RequestsGet (validateuser_url w @ ''/msapi/validateuser'') cks (Inr (Some 200))]
           = None \<longrightarrow>
         (\<exists>res. CursorExecute [] [PNone, PStr ''license''] res
            \<in> set (fst (getCompPkgDeps w cks None None deptype)))"
  proof
    assume conn: "engine_connect w
        [RequestsGet (validateuser_url w @ ''/msapi/validateuser'') cks (Inr (Some 200))] = None"
    from reject obtain ex where
      "cursor_execute w (trace ?s0 @ [EngineConnect None]) [] [PNone, PStr ''license''] = Inl ex"
      by blast
    with conn have "CursorExecute [] [PNone, PStr ''license''] (Inl ex)
        \<in> set (trace (fst (db_attempt w None None deptype ?s0)))"
      using db_attempt_execute_fail [of w ?s0 None None ex deptype]
      by (simp add: query_sql_def query_params_def query_id_def id_param_def)
    then have "CursorExecute [] [PNone, PStr ''license''] (Inl ex) \<in> set (trace (fst ?loop))"
      using retry_loop_keeps_first_attempt [of w None None deptype ?s0 1] by blast
    then show "\<exists>res. CursorExecute [] [PNone, PStr ''license''] res
            \<in> set (fst (getCompPkgDeps w cks None None deptype))"
      unfolding handler by (cases ?loop) (auto split: option.splits)
  qed
  from p1 have p0: "status_code (snd (getCompPkgDeps w cks None None deptype)) = 500"
    by auto
  show ?thesis
    by (rule conjI [OF p0 conjI [OF p1 conjI [OF p2 p3]]])
qed

theorem no_id_is_500_witness:
  "requests_get strict_world [] (validateuser_url strict_world @ ''/msapi/validateuser'') []
     = Inr (Some 200) \<and>
   (\<forall>h ps. \<exists>ex. cursor_execute strict_world h [] ps = Inl ex) \<and>
   (\<exists>ex. snd (getCompPkgDeps strict_world [] None None ''cve'') = HTTPException 500 (exn_str ex) \<and>
      (last (fst (getCompPkgDeps strict_world [] None None ''cve'')) = EngineConnect (Some ex) \<or>
       last (fst (getCompPkgDeps strict_world [] None None ''cve'')) =
         CursorExecute [] [PNone, PStr ''license''] (Inl ex))) \<and>
   getCompPkgDeps strict_world [] None None ''cve'' =
     ([RequestsGet ''http://localhost:80/msapi/validateuser'' [] (Inr (Some 200)),
       EngineConnect None,
       CursorExecute [] [PNone, PStr ''license'']
         (Inl (OtherException ''can't execute an empty query''))],
      HTTPException 500 ''can't execute an empty query'')"
proof -
  have auth: "requests_get strict_world [] (validateuser_url strict_world @ ''/msapi/validateuser'') []
     = Inr (Some 200)"
    by (simp add: strict_world_def demo_world_def)
  have reject: "\<forall>h ps. \<exists>ex. cursor_execute strict_world h [] ps = Inl ex"
    by (simp add: strict_world_def demo_world_def)
  have run: "getCompPkgDeps strict_world [] None None ''cve'' =
     ([RequestsGet ''http://localhost:80/msapi/validateuser'' [] (Inr (Some 200)),
       EngineConnect None,
       CursorExecute [] [PNone, PStr ''license'']
         (Inl (OtherException ''can't execute an empty query''))],
      HTTPException 500 ''can't execute an empty query'')"
    by (simp add: handler_eval strict_world_def demo_world_def)
  from no_id_is_500 [OF auth reject, of "''cve''"] auth reject run show ?thesis
    by blast
qed

end
